theory Spec2Isabelle
  imports Complex_Main "HOL-Library.AList"
begin

section \<open>Strings: case folding and character classes\<close>

text \<open>
  A string is the list of its UTF-16 code units, and the character type holds the code units
  below 256 (Basic Latin and Latin-1 Supplement): a text with a code unit above 255 is not
  represented.  On these code units \<open>String.prototype.toLowerCase\<close> maps the letters
  \<open>A\<close> to \<open>Z\<close> and the letters from U+00C0 to U+00DE (the multiplication sign U+00D7
  apart) to the code unit 32 above, and leaves every other code unit alone.  The
  regular-expression classes \<open>[a-z]\<close>, \<open>\d\<close> and \<open>\w\<close> are the ASCII ones, as in
  a JavaScript regular expression without the \<open>u\<close> flag.
\<close>

definition upper_letters :: string where
  "upper_letters = ''ABCDEFGHIJKLMNOPQRSTUVWXYZ''"

definition lower_letters :: string where
  "lower_letters = ''abcdefghijklmnopqrstuvwxyz''"

definition latin1_upper :: string where
  "latin1_upper = [
      CHR 0xC0, CHR 0xC1, CHR 0xC2, CHR 0xC3, CHR 0xC4, CHR 0xC5, CHR 0xC6, CHR 0xC7,
      CHR 0xC8, CHR 0xC9, CHR 0xCA, CHR 0xCB, CHR 0xCC, CHR 0xCD, CHR 0xCE, CHR 0xCF,
      CHR 0xD0, CHR 0xD1, CHR 0xD2, CHR 0xD3, CHR 0xD4, CHR 0xD5, CHR 0xD6, CHR 0xD8,
      CHR 0xD9, CHR 0xDA, CHR 0xDB, CHR 0xDC, CHR 0xDD, CHR 0xDE]"

definition latin1_lower :: string where
  "latin1_lower = [
      CHR 0xE0, CHR 0xE1, CHR 0xE2, CHR 0xE3, CHR 0xE4, CHR 0xE5, CHR 0xE6, CHR 0xE7,
      CHR 0xE8, CHR 0xE9, CHR 0xEA, CHR 0xEB, CHR 0xEC, CHR 0xED, CHR 0xEE, CHR 0xEF,
      CHR 0xF0, CHR 0xF1, CHR 0xF2, CHR 0xF3, CHR 0xF4, CHR 0xF5, CHR 0xF6, CHR 0xF8,
      CHR 0xF9, CHR 0xFA, CHR 0xFB, CHR 0xFC, CHR 0xFD, CHR 0xFE]"

definition digit_chars :: string where
  "digit_chars = ''0123456789''"

definition lower_char :: "char \<Rightarrow> char" where
  "lower_char c =
     (case map_of (zip (upper_letters @ latin1_upper) (lower_letters @ latin1_lower)) c of
        Some d \<Rightarrow> d
      | None \<Rightarrow> c)"

definition toLowerCase :: "string \<Rightarrow> string" where
  "toLowerCase s = map lower_char s"




section \<open>Topic extraction (\<open>extractTopicsWithCounts\<close>)\<close>










text \<open>
  \<open>.sort((a, b) => b[1] - a[1])\<close>: \<open>Array.prototype.sort\<close> is stable, so this is a stable
  sort by descending count.
\<close>

definition sort_desc :: "('a \<Rightarrow> nat) \<Rightarrow> 'a list \<Rightarrow> 'a list" where
  "sort_desc f xs = sort_key (\<lambda>x. - int (f x)) xs"







section \<open>JavaScript values\<close>

text \<open>
  The service works on untyped data: whatever \<open>JSON.parse\<close> returns for a file, and the
  objects it builds from it.  Such a value is a \<open>js\<close>.  Numbers are the integers and
  \<open>NaN\<close>; a \<open>Date\<close> object is represented by the argument its constructor was given
  (\<open>JDate v\<close> is \<open>new Date(v)\<close>); an object is the list of its own properties in
  insertion order, with distinct keys.  Values are compared structurally, which is
  JavaScript's comparison for the primitive values.
\<close>

datatype exn = TypeError | SyntaxError | IOError

datatype js =
    JUndefined
  | JNull
  | JBool bool
  | JNum int
  | JNaN
  | JStr string
  | JDate js
  | JArr "js list"
  | JObj "(string \<times> js) list"

definition and_then :: "exn + 'a \<Rightarrow> ('a \<Rightarrow> exn + 'b) \<Rightarrow> exn + 'b" where
  "and_then m f = (case m of Inl e \<Rightarrow> Inl e | Inr x \<Rightarrow> f x)"

fun map_exn :: "('a \<Rightarrow> exn + 'b) \<Rightarrow> 'a list \<Rightarrow> exn + 'b list" where
  "map_exn f [] = Inr []"
| "map_exn f (x # xs) =
     (case f x of Inl e \<Rightarrow> Inl e
      | Inr y \<Rightarrow> (case map_exn f xs of Inl e \<Rightarrow> Inl e | Inr ys \<Rightarrow> Inr (y # ys)))"

fun truthy :: "js \<Rightarrow> bool" where
  "truthy JUndefined = False"
| "truthy JNull = False"
| "truthy (JBool b) = b"
| "truthy (JNum n) = (n \<noteq> 0)"
| "truthy JNaN = False"
| "truthy (JStr s) = (s \<noteq> [])"
| "truthy (JDate _) = True"
| "truthy (JArr _) = True"
| "truthy (JObj _) = True"

text \<open>\<open>a || b\<close>\<close>

definition js_or :: "js \<Rightarrow> js \<Rightarrow> js" where
  "js_or a b = (if truthy a then a else b)"

definition nullish :: "js \<Rightarrow> bool" where
  "nullish v = (v = JUndefined \<or> v = JNull)"

text \<open>
  \<open>v?.k\<close> for a property name \<open>k\<close> written in the source (none of them is an array
  index or a property of a prototype other than \<open>length\<close>): \<open>undefined\<close> when \<open>v\<close> is
  \<open>null\<close> or \<open>undefined\<close>, else the property.
\<close>

fun getq :: "js \<Rightarrow> string \<Rightarrow> js" where
  "getq (JObj kvs) k = (case map_of kvs k of Some v \<Rightarrow> v | None \<Rightarrow> JUndefined)"
| "getq (JArr vs) k = (if k = ''length'' then JNum (int (length vs)) else JUndefined)"
| "getq (JStr s) k = (if k = ''length'' then JNum (int (length s)) else JUndefined)"
| "getq _ k = JUndefined"

text \<open>\<open>v.k\<close>: reading a property of \<open>null\<close> or \<open>undefined\<close> throws a \<open>TypeError\<close>.\<close>

definition get :: "js \<Rightarrow> string \<Rightarrow> exn + js" where
  "get v k = (if nullish v then Inl TypeError else Inr (getq v k))"

text \<open>
  \<open>v.k = x\<close> in strict mode (the compiled modules are strict): a \<open>TypeError\<close> on
  \<open>null\<close>, \<open>undefined\<close> and the primitive values; on an object the property is replaced
  in place or appended.  A named property put on an array or a \<open>Date\<close> is not represented.
\<close>

fun set_prop :: "js \<Rightarrow> string \<Rightarrow> js \<Rightarrow> exn + js" where
  "set_prop (JObj kvs) k x = Inr (JObj (AList.update k x kvs))"
| "set_prop (JArr vs) k x = Inr (JArr vs)"
| "set_prop (JDate d) k x = Inr (JDate d)"
| "set_prop _ k x = Inl TypeError"

subsection \<open>Conversions to string and to number\<close>

definition digit :: "nat \<Rightarrow> char" where
  "digit n = digit_chars ! n"

function show_nat :: "nat \<Rightarrow> string" where
  "show_nat n = (if n < 10 then [digit n] else show_nat (n div 10) @ [digit (n mod 10)])"
  by pat_completeness auto
termination
  by (relation "measure id") auto

declare show_nat.simps [simp del]

definition show_int :: "int \<Rightarrow> string" where
  "show_int i = (if i < 0 then CHR ''-'' # show_nat (nat (- i)) else show_nat (nat i))"

fun join_with :: "string \<Rightarrow> string list \<Rightarrow> string" where
  "join_with sep [] = []"
| "join_with sep [x] = x"
| "join_with sep (x # y # ys) = x @ sep @ join_with sep (y # ys)"

text \<open>
  \<open>String(v)\<close>.  The text of a \<open>Date\<close> is the runtime's (\<open>dstr\<close>).  An array is its
  elements joined by commas, \<open>null\<close> and \<open>undefined\<close> elements giving the empty string.
\<close>

fun js_toString :: "(js \<Rightarrow> string) \<Rightarrow> js \<Rightarrow> string" where
  "js_toString dstr JUndefined = ''undefined''"
| "js_toString dstr JNull = ''null''"
| "js_toString dstr (JBool b) = (if b then ''true'' else ''false'')"
| "js_toString dstr (JNum n) = show_int n"
| "js_toString dstr JNaN = ''NaN''"
| "js_toString dstr (JStr s) = s"
| "js_toString dstr (JDate d) = dstr d"
| "js_toString dstr (JArr vs) =
     join_with '','' (map (\<lambda>v. if v = JUndefined \<or> v = JNull then [] else js_toString dstr v) vs)"
| "js_toString dstr (JObj kvs) = ''[object Object]''"

text \<open>\<open>vs.join(sep)\<close>\<close>

definition js_join :: "(js \<Rightarrow> string) \<Rightarrow> string \<Rightarrow> js list \<Rightarrow> string" where
  "js_join dstr sep vs =
     join_with sep (map (\<lambda>v. if nullish v then [] else js_toString dstr v) vs)"

text \<open>
  \<open>Number(v)\<close>.  Reading a number out of a string (\<open>snum\<close>) and out of a \<open>Date\<close>
  (\<open>dnum\<close>) is the runtime's.
\<close>

definition js_toNumber :: "(js \<Rightarrow> string) \<Rightarrow> (js \<Rightarrow> js) \<Rightarrow> (string \<Rightarrow> js) \<Rightarrow> js \<Rightarrow> js" where
  "js_toNumber dstr dnum snum v =
     (case v of
        JUndefined \<Rightarrow> JNaN
      | JNull \<Rightarrow> JNum 0
      | JBool b \<Rightarrow> JNum (if b then 1 else 0)
      | JNum n \<Rightarrow> JNum n
      | JNaN \<Rightarrow> JNaN
      | JStr s \<Rightarrow> snum s
      | JDate d \<Rightarrow> dnum d
      | JArr vs \<Rightarrow> snum (js_toString dstr v)
      | JObj kvs \<Rightarrow> snum (js_toString dstr v))"

text \<open>
  \<open>v[i]\<close> for a number \<open>i\<close>: the property whose key is \<open>String(i)\<close>; on an array or a
  string, the element at that index.
\<close>

definition js_at :: "js \<Rightarrow> js \<Rightarrow> exn + js" where
  "js_at v i =
     (if nullish v then Inl TypeError
      else Inr (case v of
          JArr vs \<Rightarrow> (case i of JNum n \<Rightarrow> if 0 \<le> n \<and> nat n < length vs then vs ! nat n else JUndefined
                     | _ \<Rightarrow> JUndefined)
        | JStr s \<Rightarrow> (case i of JNum n \<Rightarrow> if 0 \<le> n \<and> nat n < length s then JStr [s ! nat n] else JUndefined
                     | _ \<Rightarrow> JUndefined)
        | JObj kvs \<Rightarrow> (case i of JNum n \<Rightarrow> getq v (show_int n) | JNaN \<Rightarrow> getq v ''NaN''
                     | _ \<Rightarrow> JUndefined)
        | _ \<Rightarrow> JUndefined))"

text \<open>\<open>for (const x of v)\<close>: the elements of an array, the characters of a string.\<close>

definition js_iter :: "js \<Rightarrow> exn + js list" where
  "js_iter v = (case v of JArr vs \<Rightarrow> Inr vs | JStr s \<Rightarrow> Inr (map (\<lambda>c. JStr [c]) s) | _ \<Rightarrow> Inl TypeError)"

text \<open>
  A \<open>Map\<close>: its entries in insertion order; \<open>set\<close> replaces in place or appends.
  Keys are compared as values.  For strings and the other primitive values this is the
  comparison a \<open>Map\<close> makes; two distinct objects with equal contents, which a
  \<open>Map\<close> keeps apart, are one key here.
\<close>

definition map_has :: "('k \<times> 'v) list \<Rightarrow> 'k \<Rightarrow> bool" where
  "map_has m k = (map_of m k \<noteq> None)"

definition map_set :: "('k \<times> 'v) list \<Rightarrow> 'k \<Rightarrow> 'v \<Rightarrow> ('k \<times> 'v) list" where
  "map_set m k v = AList.update k v m"

section \<open>The environment and the state of the service\<close>

text \<open>
  What the service takes from the runtime is a field of \<open>env\<close>: the file system calls it
  makes (a call that throws returns \<open>Inl\<close>), \<open>JSON.parse\<close> and \<open>JSON.stringify\<close>,
  the clock (\<open>now\<close> is \<open>Date.now()\<close> while an operation runs, \<open>now_done\<close> when a scan
  completes), the functions of \<open>path\<close>, the random identifiers (\<open>generateId env n\<close> is the
  result of the \<open>n\<close>-th call of an operation), the conversions of dates and of numeric
  strings, the configured storage path and the user data directory.
  \<open>readPrefix p n\<close> is the text of the first \<open>n\<close> bytes of \<open>p\<close> (\<open>openSync\<close>,
  \<open>readSync\<close>, \<open>closeSync\<close>, \<open>toString\<close>).
\<close>

record stats =
  size_st :: nat
  mtimeMs :: rat

record env =
  existsSync :: "string \<Rightarrow> bool"
  readdirSync :: "string \<Rightarrow> exn + string list"
  statSync :: "string \<Rightarrow> exn + stats"
  readPrefix :: "string \<Rightarrow> nat \<Rightarrow> exn + string"
  readFile :: "string \<Rightarrow> exn + string"
  JSON_parse :: "string \<Rightarrow> exn + js"
  JSON_stringify :: "js \<Rightarrow> string"
  now :: int
  now_done :: int
  path_join :: "string list \<Rightarrow> string"
  basename :: "string \<Rightarrow> string \<Rightarrow> string"
  dirname :: "string \<Rightarrow> string"
  generateId :: "nat \<Rightarrow> string"
  date_toString :: "js \<Rightarrow> string"
  date_toNumber :: "js \<Rightarrow> js"
  date_toJSON :: "js \<Rightarrow> js"
  string_toNumber :: "string \<Rightarrow> js"
  config_storagePath :: string
  userDataPath :: string

definition MAX_FILE_SIZE_MB :: nat where
  "MAX_FILE_SIZE_MB = 50"

definition MAX_FILE_SIZE_BYTES :: nat where
  "MAX_FILE_SIZE_BYTES = MAX_FILE_SIZE_MB * 1024 * 1024"

definition METADATA_READ_BYTES :: nat where
  "METADATA_READ_BYTES = 4096"

definition MAX_PARALLEL_READS :: nat where
  "MAX_PARALLEL_READS = 10"

definition MAX_MESSAGE_PREVIEW_LENGTH :: nat where
  "MAX_MESSAGE_PREVIEW_LENGTH = 200"

record scan_stats =
  foldersScanned :: nat
  chatsFound :: nat
  errors :: nat
  skippedLarge :: nat
  skippedCached :: nat

record CachedChatMeta =
  id_m :: js
  filePath_m :: string
  mtime_m :: rat
  size_m :: nat
  chat_m :: js

text \<open>
  The three maps of the service keep their entries in insertion order.  A summary is held
  by value: the object that \<open>cachedChats\<close> and \<open>fileMetaCache\<close> share in the program
  is two equal values here, so what \<open>loadFullChat\<close> writes into the summary of the
  Index is not written into the summary of the cache entry.
\<close>

record service =
  cachedChats :: "(js \<times> js) list"
  chatFilePaths :: "(js \<times> string) list"
  fileMetaCache :: "(string \<times> CachedChatMeta) list"
  storagePath :: string
  scanStats :: scan_stats
  lastScanTime :: int
  scanInProgress :: bool

definition zero_stats :: scan_stats where
  "zero_stats = \<lparr>foldersScanned = 0, chatsFound = 0, errors = 0, skippedLarge = 0, skippedCached = 0\<rparr>"

definition count_error :: "service \<Rightarrow> service" where
  "count_error s = s\<lparr>scanStats := (scanStats s)\<lparr>errors := errors (scanStats s) + 1\<rparr>\<rparr>"

definition getAllChats :: "service \<Rightarrow> js list" where
  "getAllChats s = map snd (cachedChats s)"

section \<open>Path resolution and the container label\<close>

definition getCopilotChatStoragePath :: "env \<Rightarrow> string" where
  "getCopilotChatStoragePath env =
     (if config_storagePath env \<noteq> [] \<and> existsSync env (config_storagePath env)
      then config_storagePath env
      else path_join env [userDataPath env, ''workspaceStorage''])"

text \<open>\<open>.replace(/^file:\/\/\//, '')\<close> and \<open>.replace(/%20/g, ' ')\<close>\<close>

definition strip_file_scheme :: "string \<Rightarrow> string" where
  "strip_file_scheme p = (if take 8 p = ''file:///'' then drop 8 p else p)"

fun unescape_spaces :: "string \<Rightarrow> string" where
  "unescape_spaces [] = []"
| "unescape_spaces (c # cs) =
     (if take 3 (c # cs) = ''%20'' then CHR '' '' # unescape_spaces (drop 2 cs)
      else c # unescape_spaces cs)"

definition workspace_json_name :: "env \<Rightarrow> string \<Rightarrow> exn + string option" where
  "workspace_json_name env workspaceId =
     (let workspaceJsonPath =
            path_join env [getCopilotChatStoragePath env, workspaceId, ''workspace.json'']
      in if existsSync env workspaceJsonPath then
           and_then (readFile env workspaceJsonPath) (\<lambda>content.
           and_then (JSON_parse env content) (\<lambda>data.
           and_then (get data ''folder'') (\<lambda>folder.
             if truthy folder then
               (case folder of
                  JStr f \<Rightarrow> Inr (Some (basename env (unescape_spaces (strip_file_scheme f)) []))
                | _ \<Rightarrow> Inl TypeError)
             else if truthy (getq data ''workspace'') then
               (case getq data ''workspace'' of
                  JStr w \<Rightarrow> Inr (Some (basename env (unescape_spaces (strip_file_scheme w))
                                        ''.code-workspace''))
                | _ \<Rightarrow> Inl TypeError)
             else Inr None)))
         else Inr None)"

definition getWorkspaceName :: "env \<Rightarrow> string \<Rightarrow> string" where
  "getWorkspaceName env workspaceId =
     (case workspace_json_name env workspaceId of
        Inr (Some name) \<Rightarrow> name
      | _ \<Rightarrow> ''Workspace '' @ take 8 workspaceId)"

section \<open>Metadata extraction (\<open>parseMetadataFast\<close>)\<close>

definition to_num :: "env \<Rightarrow> js \<Rightarrow> js" where
  "to_num env v = js_toNumber (date_toString env) (date_toNumber env) (string_toNumber env) v"

text \<open>\<open>v - k\<close>, \<open>v * k\<close> and \<open>v <= k\<close> for a number literal \<open>k\<close>\<close>

definition js_minus :: "env \<Rightarrow> js \<Rightarrow> int \<Rightarrow> js" where
  "js_minus env v k = (case to_num env v of JNum n \<Rightarrow> JNum (n - k) | _ \<Rightarrow> JNaN)"

definition js_times :: "env \<Rightarrow> js \<Rightarrow> int \<Rightarrow> js" where
  "js_times env v k = (case to_num env v of JNum n \<Rightarrow> JNum (n * k) | _ \<Rightarrow> JNaN)"

definition js_le :: "env \<Rightarrow> js \<Rightarrow> int \<Rightarrow> bool" where
  "js_le env v k = (case to_num env v of JNum n \<Rightarrow> n \<le> k | _ \<Rightarrow> False)"

text \<open>
  \<open>truncateText\<close>.  On a text that is not a string, \<open>text.substring\<close> is not a function
  and the call throws.
\<close>

definition truncateText :: "env \<Rightarrow> js \<Rightarrow> nat \<Rightarrow> exn + js" where
  "truncateText env text maxLength =
     (if \<not> truthy text then Inr (JStr [])
      else if js_le env (getq text ''length'') (int maxLength) then Inr text
      else (case text of
              JStr s \<Rightarrow> Inr (JStr (take maxLength s @ ''...''))
            | _ \<Rightarrow> Inl TypeError))"

definition message_text :: "js \<Rightarrow> js" where
  "message_text request = getq (getq request ''message'') ''text''"

definition parse_or_reread :: "env \<Rightarrow> string \<Rightarrow> string \<Rightarrow> exn + js" where
  "parse_or_reread env filePath content =
     (case JSON_parse env content of
        Inr data \<Rightarrow> Inr data
      | Inl _ \<Rightarrow> and_then (readFile env filePath) (JSON_parse env))"

definition summary_of :: "env \<Rightarrow> string \<Rightarrow> string \<Rightarrow> nat \<Rightarrow> js \<Rightarrow> js \<Rightarrow> exn + js option" where
  "summary_of env filePath workspaceId fileSize data requests =
     (let workspaceName = getWorkspaceName env workspaceId;
          requestCount = getq requests ''length''
      in and_then (js_at requests (JNum 0)) (\<lambda>firstRequest.
         and_then (js_at requests (js_minus env requestCount 1)) (\<lambda>lastRequest.
         and_then (truncateText env (js_or (message_text firstRequest) (JStr []))
                     MAX_MESSAGE_PREVIEW_LENGTH) (\<lambda>firstMessage.
         and_then (truncateText env (js_or (message_text lastRequest) (JStr []))
                     MAX_MESSAGE_PREVIEW_LENGTH) (\<lambda>lastMessage.
         let modelInfo = js_or (getq (getq (getq data ''selectedModel'') ''metadata'') ''name'')
                               (JStr ''Unknown'')
         in Inr (Some (JObj
              [(''id'', js_or (getq data ''sessionId'') (JStr (basename env filePath ''.json''))),
               (''workspacePath'', JStr workspaceId),
               (''workspaceName'', JStr workspaceName),
               (''createdAt'', JDate (js_or (getq data ''creationDate'') (JNum (now env)))),
               (''updatedAt'', JDate (js_or (getq data ''lastMessageDate'') (JNum (now env)))),
               (''firstMessage'', firstMessage),
               (''lastMessage'', lastMessage),
               (''messageCount'', js_times env requestCount 2),
               (''fileSize'', JNum (int fileSize)),
               (''messages'', JArr []),
               (''tags'', JArr [modelInfo]),
               (''attachedProject'', JNull)])))))))"

text \<open>The body of the \<open>try\<close> block of \<open>parseMetadataFast\<close>.\<close>

definition parseMetadata_try :: "env \<Rightarrow> string \<Rightarrow> string \<Rightarrow> nat \<Rightarrow> exn + js option" where
  "parseMetadata_try env filePath workspaceId fileSize =
     (let readSize = min fileSize (METADATA_READ_BYTES * 4)
      in and_then (readPrefix env filePath readSize) (\<lambda>content.
         and_then (parse_or_reread env filePath content) (\<lambda>data.
         and_then (get data ''requests'') (\<lambda>requests.
           if \<not> truthy requests \<or> getq requests ''length'' = JNum 0 then Inr None
           else summary_of env filePath workspaceId fileSize data requests))))"

text \<open>
  Whether the \<open>try\<close> block gets as far as \<open>getWorkspaceName\<close>: the file has been read
  and parsed and its \<open>requests\<close> are not empty.  \<open>getWorkspaceName\<close> resolves the
  storage root again, and \<open>getCopilotChatStoragePath\<close> assigns \<open>_storagePath\<close>.
\<close>

definition has_requests :: "env \<Rightarrow> string \<Rightarrow> nat \<Rightarrow> bool" where
  "has_requests env filePath fileSize =
     (case and_then (readPrefix env filePath (min fileSize (METADATA_READ_BYTES * 4))) (\<lambda>content.
           and_then (parse_or_reread env filePath content) (\<lambda>data. get data ''requests'')) of
        Inr requests \<Rightarrow> truthy requests \<and> getq requests ''length'' \<noteq> JNum 0
      | Inl _ \<Rightarrow> False)"

definition parseMetadataFast :: "env \<Rightarrow> service \<Rightarrow> string \<Rightarrow> string \<Rightarrow> nat \<Rightarrow> js option \<times> service" where
  "parseMetadataFast env s filePath workspaceId fileSize =
     (let s1 = (if has_requests env filePath fileSize
                then s\<lparr>storagePath := getCopilotChatStoragePath env\<rparr> else s)
      in case parseMetadata_try env filePath workspaceId fileSize of
           Inl _ \<Rightarrow> (None, count_error s1)
         | Inr r \<Rightarrow> (r, s1))"

section \<open>Full-content loading (\<open>loadFullChat\<close>, \<open>extractResponseText\<close>)\<close>

definition newline :: string where
  "newline = [CHR 0x0A]"

definition part_text :: "js \<Rightarrow> exn + js" where
  "part_text part =
     and_then (get part ''value'') (\<lambda>v. Inr (js_or (js_or v (getq part ''text'')) (JStr [])))"

definition extractResponseText :: "env \<Rightarrow> js \<Rightarrow> exn + js" where
  "extractResponseText env request =
     and_then (get request ''response'') (\<lambda>response.
       if truthy (getq response ''value'') then Inr (getq response ''value'')
       else if truthy (getq (getq response ''result'') ''value'')
         then Inr (getq (getq response ''result'') ''value'')
       else if truthy (getq (getq request ''result'') ''value'')
         then Inr (getq (getq request ''result'') ''value'')
       else if truthy (getq (getq response ''result'') ''content'') then
         (case getq (getq response ''result'') ''content'' of
            JArr parts \<Rightarrow>
              and_then (map_exn part_text parts) (\<lambda>texts.
                Inr (JStr (js_join (date_toString env) newline texts)))
          | content \<Rightarrow> Inr content)
       else Inr (JStr []))"

definition user_message :: "env \<Rightarrow> js \<Rightarrow> js \<Rightarrow> nat \<Rightarrow> js" where
  "user_message env data request n =
     JObj [(''id'', JStr (generateId env n)),
           (''role'', JStr ''user''),
           (''content'', message_text request),
           (''timestamp'',
              JDate (js_or (js_or (getq (getq request ''message'') ''timestamp'')
                                  (getq data ''creationDate''))
                           (JNum (now env))))]"

definition assistant_message :: "env \<Rightarrow> js \<Rightarrow> js \<Rightarrow> js \<Rightarrow> nat \<Rightarrow> js" where
  "assistant_message env data request responseText n =
     JObj [(''id'', JStr (generateId env n)),
           (''role'', JStr ''assistant''),
           (''content'', responseText),
           (''timestamp'',
              JDate (js_or (js_or (getq request ''responseCompleteDate'')
                                  (getq data ''lastMessageDate''))
                           (JNum (now env))))]"

text \<open>
  The loop over the requests, shared by \<open>loadFullChat\<close> and
  \<open>convertNativeCopilotChat\<close>: \<open>messages\<close> is the array built so far, and every
  \<open>push\<close> draws one identifier.
\<close>

fun collect_messages :: "env \<Rightarrow> js \<Rightarrow> js list \<Rightarrow> js list \<Rightarrow> exn + js list" where
  "collect_messages env data [] messages = Inr messages"
| "collect_messages env data (request # rest) messages =
     and_then (get request ''message'') (\<lambda>message.
       let messages1 =
             (if truthy (getq message ''text'')
              then messages @ [user_message env data request (length messages)]
              else messages)
       in and_then (extractResponseText env request) (\<lambda>responseText.
            collect_messages env data rest
              (if truthy responseText
               then messages1 @ [assistant_message env data request responseText (length messages1)]
               else messages1)))"

definition read_messages :: "env \<Rightarrow> string \<Rightarrow> exn + js list" where
  "read_messages env filePath =
     and_then (readFile env filePath) (\<lambda>content.
     and_then (JSON_parse env content) (\<lambda>data.
     and_then (get data ''requests'') (\<lambda>requests.
     and_then (js_iter (js_or requests (JArr []))) (\<lambda>rs.
       collect_messages env data rs []))))"

definition cached_or_null :: "service \<Rightarrow> js \<Rightarrow> js" where
  "cached_or_null s chatId =
     (case map_of (cachedChats s) chatId of Some c \<Rightarrow> js_or c JNull | None \<Rightarrow> JNull)"

definition with_messages :: "js \<Rightarrow> js list \<Rightarrow> exn + js" where
  "with_messages c messages =
     and_then (set_prop c ''messages'' (JArr messages)) (\<lambda>c1.
       set_prop c1 ''messageCount'' (JNum (int (length messages))))"

definition loadFullChat :: "env \<Rightarrow> service \<Rightarrow> js \<Rightarrow> js \<times> service" where
  "loadFullChat env s chatId =
     (case map_of (chatFilePaths s) chatId of
        None \<Rightarrow> (cached_or_null s chatId, s)
      | Some path \<Rightarrow>
          if path = [] then (cached_or_null s chatId, s)
          else (case read_messages env path of
                  Inl _ \<Rightarrow> (JNull, s)
                | Inr messages \<Rightarrow>
                    (case map_of (cachedChats s) chatId of
                       None \<Rightarrow> (JNull, s)
                     | Some c \<Rightarrow>
                         if truthy c then
                           (case with_messages c messages of
                              Inl _ \<Rightarrow> (JNull, s)
                            | Inr c' \<Rightarrow> (c', s\<lparr>cachedChats := map_set (cachedChats s) chatId c'\<rparr>))
                         else (JNull, s))))"

text \<open>
  A request whose response payload has none of the recognized shapes: no direct value, no
  nested result value, no value in the alternate result field, no content parts.
\<close>

definition no_response_shape :: "js \<Rightarrow> bool" where
  "no_response_shape request =
     (\<not> truthy (getq (getq request ''response'') ''value'')
      \<and> \<not> truthy (getq (getq (getq request ''response'') ''result'') ''value'')
      \<and> \<not> truthy (getq (getq request ''result'') ''value'')
      \<and> \<not> truthy (getq (getq (getq request ''response'') ''result'') ''content''))"

section \<open>Export and import (\<open>exportChats\<close>, \<open>importChats\<close>)\<close>

text \<open>
  The \<open>json\<close> case of \<open>exportChats\<close>: the text written to the output path.
\<close>

definition export_data :: "env \<Rightarrow> js list \<Rightarrow> js" where
  "export_data env chats =
     JObj [(''version'', JStr ''1.0''),
           (''exportedAt'', JDate (JNum (now env))),
           (''sourceExtension'', JStr ''copilot-chat-manager''),
           (''chats'', JArr chats)]"

definition exportChats_json :: "env \<Rightarrow> js list \<Rightarrow> string" where
  "exportChats_json env chats = JSON_stringify env (export_data env chats)"

text \<open>
  The value that \<open>JSON.parse\<close> reads back from the text \<open>JSON.stringify\<close> writes for a
  value: a \<open>Date\<close> has become what its \<open>toJSON\<close> gives (\<open>dj\<close>: the ISO string, or
  \<open>null\<close>), \<open>NaN\<close> has become \<open>null\<close>, an \<open>undefined\<close> property is gone and an
  \<open>undefined\<close> element is \<open>null\<close>.
\<close>

fun json_value :: "(js \<Rightarrow> js) \<Rightarrow> js \<Rightarrow> js" where
  "json_value dj (JDate d) = dj d"
| "json_value dj JNaN = JNull"
| "json_value dj (JArr vs) = JArr (map (\<lambda>v. if v = JUndefined then JNull else json_value dj v) vs)"
| "json_value dj (JObj kvs) =
     JObj (map (\<lambda>kv. (fst kv, json_value dj (snd kv))) (filter (\<lambda>kv. snd kv \<noteq> JUndefined) kvs))"
| "json_value dj v = v"

datatype import_error =
    EntryError js
  | ParseError
  | NativeError
  | FormatError "string list"

text \<open>
  \<open>ImportResult\<close>.  An error message is kept by its kind: \<open>EntryError i\<close> is
  \<open>Error importing chat i: ...\<close>, \<open>ParseError\<close> is \<open>Parse error: ...\<close>, \<open>NativeError\<close>
  is \<open>Could not parse native Copilot chat format\<close>, and \<open>FormatError ks\<close> is the message
  about an unrecognized format with the keys \<open>ks\<close> found.
\<close>

record ImportResult =
  success :: bool
  importedCount :: nat
  skippedCount :: nat
  errors_r :: "import_error list"

definition empty_result :: ImportResult where
  "empty_result = \<lparr>success = False, importedCount = 0, skippedCount = 0, errors_r = []\<rparr>"

text \<open>The own enumerable properties of a value: \<open>{...v}\<close> and \<open>Object.keys(v)\<close>.\<close>

definition own_props :: "js \<Rightarrow> (string \<times> js) list" where
  "own_props v =
     (case v of
        JObj kvs \<Rightarrow> kvs
      | JArr vs \<Rightarrow> zip (map show_nat [0..<length vs]) vs
      | JStr s \<Rightarrow> zip (map show_nat [0..<length s]) (map (\<lambda>c. JStr [c]) s)
      | _ \<Rightarrow> [])"

text \<open>\<open>m => ({...m, timestamp: new Date(m.timestamp)})\<close>\<close>

definition revive_message :: "js \<Rightarrow> exn + js" where
  "revive_message m =
     and_then (get m ''timestamp'') (\<lambda>t.
       Inr (JObj (AList.update ''timestamp'' (JDate t) (own_props m))))"

text \<open>\<open>v.map(...)\<close> with the function above: not a function unless \<open>v\<close> is an array.\<close>

definition revive_messages :: "js \<Rightarrow> exn + js list" where
  "revive_messages v = (case v of JArr ms \<Rightarrow> map_exn revive_message ms | _ \<Rightarrow> Inl TypeError)"

text \<open>
  The body of the \<open>try\<close> block for one entry of \<open>data.chats\<close>: \<open>True\<close> when the entry
  was skipped, with the new \<open>cachedChats\<close>.
\<close>

definition import_entry_try :: "(js \<times> js) list \<Rightarrow> js \<Rightarrow> exn + bool \<times> (js \<times> js) list" where
  "import_entry_try m c =
     and_then (get c ''id'') (\<lambda>cid.
       if map_has m cid then Inr (True, m)
       else
         and_then (set_prop c ''createdAt'' (JDate (getq c ''createdAt''))) (\<lambda>c1.
         and_then (set_prop c1 ''updatedAt'' (JDate (getq c1 ''updatedAt''))) (\<lambda>c2.
         and_then (revive_messages (js_or (getq c2 ''messages'') (JArr []))) (\<lambda>ms.
         and_then (set_prop c2 ''messages'' (JArr ms)) (\<lambda>c3.
           Inr (False, map_set m (getq c3 ''id'') c3))))))"

text \<open>
  One turn of the loop.  The \<open>catch\<close> block reads \<open>chat.id\<close> for its message, which
  throws again when the entry is \<open>null\<close>: that exception leaves the loop.
\<close>

definition import_entry ::
  "js \<Rightarrow> ImportResult \<times> (js \<times> js) list \<Rightarrow> exn + ImportResult \<times> (js \<times> js) list" where
  "import_entry c rm =
     (case import_entry_try (snd rm) c of
        Inr (skipped, m') \<Rightarrow>
          Inr (if skipped then (fst rm)\<lparr>skippedCount := skippedCount (fst rm) + 1\<rparr>
               else (fst rm)\<lparr>importedCount := importedCount (fst rm) + 1\<rparr>, m')
      | Inl _ \<Rightarrow>
          and_then (get c ''id'') (\<lambda>cid.
            Inr ((fst rm)\<lparr>errors_r := errors_r (fst rm) @ [EntryError cid]\<rparr>, snd rm)))"

text \<open>
  The loop over \<open>data.chats\<close>.  The first component tells whether an exception left the
  loop; the result and the map are as they were at that moment.
\<close>

fun import_entries ::
  "js list \<Rightarrow> ImportResult \<times> (js \<times> js) list \<Rightarrow> bool \<times> ImportResult \<times> (js \<times> js) list" where
  "import_entries [] rm = (False, rm)"
| "import_entries (c # rest) rm =
     (case import_entry c rm of
        Inl _ \<Rightarrow> (True, rm)
      | Inr rm' \<Rightarrow> import_entries rest rm')"

definition is_array :: "js \<Rightarrow> bool" where
  "is_array v = (case v of JArr _ \<Rightarrow> True | _ \<Rightarrow> False)"

definition elements :: "js \<Rightarrow> js list" where
  "elements v = (case v of JArr vs \<Rightarrow> vs | _ \<Rightarrow> [])"

text \<open>The \<open>catch\<close> of \<open>importChats\<close>, and its last assignment.\<close>

definition parse_failed :: "ImportResult \<Rightarrow> ImportResult" where
  "parse_failed r = r\<lparr>errors_r := errors_r r @ [ParseError]\<rparr>"

definition finish :: "ImportResult \<Rightarrow> ImportResult" where
  "finish r = r\<lparr>success := (importedCount r > 0 \<or> skippedCount r > 0)\<rparr>"

definition convertNative_try :: "env \<Rightarrow> js \<Rightarrow> string \<Rightarrow> exn + js option" where
  "convertNative_try env data path =
     and_then (get data ''requests'') (\<lambda>requests.
       if \<not> truthy requests \<or> getq requests ''length'' = JNum 0 then Inr None
       else
         and_then (js_iter requests) (\<lambda>rs.
         and_then (collect_messages env data rs []) (\<lambda>msgs.
         let wsName = basename env (dirname env (dirname env path)) []
         in and_then (js_at requests (JNum 0)) (\<lambda>firstRequest.
            and_then (truncateText env (js_or (message_text firstRequest) (JStr []))
                        MAX_MESSAGE_PREVIEW_LENGTH) (\<lambda>first.
            and_then (js_at requests (js_minus env (getq requests ''length'') 1)) (\<lambda>lastRequest.
            and_then (truncateText env (js_or (message_text lastRequest) (JStr []))
                        MAX_MESSAGE_PREVIEW_LENGTH) (\<lambda>last.
            Inr (Some (JObj
              [(''id'', js_or (getq data ''sessionId'') (JStr (basename env path ''.json''))),
               (''workspacePath'', JStr (dirname env (dirname env path))),
               (''workspaceName'', JStr (if wsName = [] then ''Imported'' else wsName)),
               (''createdAt'', JDate (js_or (getq data ''creationDate'') (JNum (now env)))),
               (''updatedAt'', JDate (js_or (getq data ''lastMessageDate'') (JNum (now env)))),
               (''firstMessage'', first),
               (''lastMessage'', last),
               (''messageCount'', JNum (int (length msgs))),
               (''fileSize'', JNum 0),
               (''messages'', JArr msgs),
               (''tags'', JArr [js_or (getq (getq (getq data ''selectedModel'') ''metadata'') ''name'')
                                     (JStr ''Unknown'')]),
               (''attachedProject'', JNull)])))))))))"

definition convertNativeCopilotChat :: "env \<Rightarrow> js \<Rightarrow> string \<Rightarrow> js option" where
  "convertNativeCopilotChat env data path =
     (case convertNative_try env data path of Inl _ \<Rightarrow> None | Inr r \<Rightarrow> r)"

text \<open>The single-entry branch: the statements that can throw.\<close>

definition revive_single :: "js \<Rightarrow> exn + js" where
  "revive_single data =
     and_then (set_prop data ''createdAt'' (JDate (getq data ''createdAt''))) (\<lambda>d1.
     and_then (set_prop d1 ''updatedAt'' (JDate (getq d1 ''updatedAt''))) (\<lambda>d2.
     and_then (revive_messages (getq d2 ''messages'')) (\<lambda>ms.
       set_prop d2 ''messages'' (JArr ms))))"

text \<open>\<open>importChats\<close> after the file has been read and parsed into \<open>data\<close>.\<close>

definition import_data :: "env \<Rightarrow> service \<Rightarrow> string \<Rightarrow> js \<Rightarrow> ImportResult \<times> service" where
  "import_data env s path data =
     (if nullish data then (parse_failed empty_result, s)
      else if truthy (getq data ''chats'') \<and> is_array (getq data ''chats'') then
        (case import_entries (elements (getq data ''chats'')) (empty_result, cachedChats s) of
           (thrown, r, m) \<Rightarrow>
             (if thrown then parse_failed r else finish r, s\<lparr>cachedChats := m\<rparr>))
      else if truthy (getq data ''id'') \<and> truthy (getq data ''messages'')
              \<and> is_array (getq data ''messages'') then
        (if map_has (cachedChats s) (getq data ''id'')
         then (finish (empty_result\<lparr>skippedCount := 1\<rparr>), s)
         else (case revive_single data of
                 Inl _ \<Rightarrow> (parse_failed empty_result, s)
               | Inr d \<Rightarrow>
                   (finish (empty_result\<lparr>importedCount := 1\<rparr>),
                    s\<lparr>cachedChats := map_set (cachedChats s) (getq d ''id'') d\<rparr>)))
      else if truthy (getq data ''sessionId'') \<and> truthy (getq data ''requests'') then
        (case convertNativeCopilotChat env data path of
           Some c \<Rightarrow>
             if map_has (cachedChats s) (getq c ''id'')
             then (finish (empty_result\<lparr>skippedCount := 1\<rparr>), s)
             else (finish (empty_result\<lparr>importedCount := 1\<rparr>),
                   s\<lparr>cachedChats := map_set (cachedChats s) (getq c ''id'') c,
                     chatFilePaths := map_set (chatFilePaths s) (getq c ''id'') path\<rparr>)
         | None \<Rightarrow> (finish (empty_result\<lparr>errors_r := [NativeError]\<rparr>), s))
      else (empty_result\<lparr>errors_r := [FormatError (map fst (own_props data))]\<rparr>, s))"

definition importChats :: "env \<Rightarrow> service \<Rightarrow> string \<Rightarrow> ImportResult \<times> service" where
  "importChats env s path =
     (case and_then (readFile env path) (JSON_parse env) of
        Inl _ \<Rightarrow> (parse_failed empty_result, s)
      | Inr data \<Rightarrow> import_data env s path data)"

subsection \<open>Summaries and messages as the interfaces type them\<close>

text \<open>
  \<open>ChatMessage\<close> and \<open>ChatHistory\<close> of the models module, and the objects they are.  A
  date field holds the argument of the \<open>Date\<close>.
\<close>

datatype role = User | Assistant

definition role_name :: "role \<Rightarrow> string" where
  "role_name r = (case r of User \<Rightarrow> ''user'' | Assistant \<Rightarrow> ''assistant'')"

record ChatMessage =
  m_id :: string
  m_role :: role
  m_content :: string
  m_timestamp :: js

record ChatHistory =
  h_id :: string
  h_workspacePath :: string
  h_workspaceName :: string
  h_createdAt :: js
  h_updatedAt :: js
  h_firstMessage :: string
  h_lastMessage :: string
  h_messageCount :: int
  h_fileSize :: int
  h_messages :: "ChatMessage list"
  h_tags :: "string list"
  h_attachedProject :: "string option"

definition js_of_message :: "ChatMessage \<Rightarrow> js" where
  "js_of_message m =
     JObj [(''id'', JStr (m_id m)),
           (''role'', JStr (role_name (m_role m))),
           (''content'', JStr (m_content m)),
           (''timestamp'', JDate (m_timestamp m))]"

definition js_of_chat :: "ChatHistory \<Rightarrow> js" where
  "js_of_chat c =
     JObj [(''id'', JStr (h_id c)),
           (''workspacePath'', JStr (h_workspacePath c)),
           (''workspaceName'', JStr (h_workspaceName c)),
           (''createdAt'', JDate (h_createdAt c)),
           (''updatedAt'', JDate (h_updatedAt c)),
           (''firstMessage'', JStr (h_firstMessage c)),
           (''lastMessage'', JStr (h_lastMessage c)),
           (''messageCount'', JNum (h_messageCount c)),
           (''fileSize'', JNum (h_fileSize c)),
           (''messages'', JArr (map js_of_message (h_messages c))),
           (''tags'', JArr (map JStr (h_tags c))),
           (''attachedProject'', (case h_attachedProject c of None \<Rightarrow> JNull | Some p \<Rightarrow> JStr p))]"

definition empty_service :: service where
  "empty_service =
     \<lparr>cachedChats = [], chatFilePaths = [], fileMetaCache = [], storagePath = [],
      scanStats = zero_stats, lastScanTime = 0, scanInProgress = False\<rparr>"

text \<open>
  The document read back from the text of a \<open>json\<close> export of the summaries \<open>cs\<close>, one
  of its entries and one of its messages, and what such an entry is once imported.
\<close>

definition export_payload :: "env \<Rightarrow> ChatHistory list \<Rightarrow> js" where
  "export_payload env cs = json_value (date_toJSON env) (export_data env (map js_of_chat cs))"

definition exported_message :: "(js \<Rightarrow> js) \<Rightarrow> ChatMessage \<Rightarrow> js" where
  "exported_message dj m = json_value dj (js_of_message m)"

definition exported_chat :: "(js \<Rightarrow> js) \<Rightarrow> ChatHistory \<Rightarrow> js" where
  "exported_chat dj c = json_value dj (js_of_chat c)"

definition imported_message :: "(js \<Rightarrow> js) \<Rightarrow> ChatMessage \<Rightarrow> js" where
  "imported_message dj m =
     JObj [(''id'', JStr (m_id m)),
           (''role'', JStr (role_name (m_role m))),
           (''content'', JStr (m_content m)),
           (''timestamp'', JDate (dj (m_timestamp m)))]"

definition imported_chat :: "(js \<Rightarrow> js) \<Rightarrow> ChatHistory \<Rightarrow> js" where
  "imported_chat dj c =
     JObj [(''id'', JStr (h_id c)),
           (''workspacePath'', JStr (h_workspacePath c)),
           (''workspaceName'', JStr (h_workspaceName c)),
           (''createdAt'', JDate (dj (h_createdAt c))),
           (''updatedAt'', JDate (dj (h_updatedAt c))),
           (''firstMessage'', JStr (h_firstMessage c)),
           (''lastMessage'', JStr (h_lastMessage c)),
           (''messageCount'', JNum (h_messageCount c)),
           (''fileSize'', JNum (h_fileSize c)),
           (''messages'', JArr (map (imported_message dj) (h_messages c))),
           (''tags'', JArr (map JStr (h_tags c))),
           (''attachedProject'', (case h_attachedProject c of None \<Rightarrow> JNull | Some p \<Rightarrow> JStr p))]"

text \<open>What identifies a message and fixes its place: identifier, role and content.\<close>

definition message_core :: "js \<Rightarrow> js \<times> js \<times> js" where
  "message_core m = (getq m ''id'', getq m ''role'', getq m ''content'')"

definition session_view :: "js \<times> js \<Rightarrow> js \<times> js \<times> (js \<times> js \<times> js) list" where
  "session_view kv =
     (fst kv, getq (snd kv) ''messageCount'', map message_core (elements (getq (snd kv) ''messages'')))"

definition summary_view :: "ChatHistory \<Rightarrow> js \<times> js \<times> (js \<times> js \<times> js) list" where
  "summary_view c =
     (JStr (h_id c), JNum (h_messageCount c),
      map (\<lambda>m. (JStr (m_id m), JStr (role_name (m_role m)), JStr (m_content m))) (h_messages c))"

section \<open>Scanning (\<open>scanAllChatHistories\<close>, \<open>processFileFast\<close>)\<close>

record candidate =
  c_filePath :: string
  c_workspaceId :: string
  c_stats :: stats

definition ends_with :: "string \<Rightarrow> string \<Rightarrow> bool" where
  "ends_with s suf =
     (length suf \<le> length s \<and> drop (length s - length suf) s = suf)"

text \<open>
  The inner loop of the discovery, over the files of one \<open>chatSessions\<close> directory.
  The first component tells whether \<open>statSync\<close> threw; \<open>acc\<close> is \<open>filesToProcess\<close>.
\<close>

fun collect_files ::
  "env \<Rightarrow> string \<Rightarrow> string \<Rightarrow> string list \<Rightarrow> candidate list \<times> service
     \<Rightarrow> bool \<times> candidate list \<times> service" where
  "collect_files env chatSessionsPath workspaceDir [] (acc, s) = (False, acc, s)"
| "collect_files env chatSessionsPath workspaceDir (file # files) (acc, s) =
     (if \<not> ends_with file ''.json''
      then collect_files env chatSessionsPath workspaceDir files (acc, s)
      else (case statSync env (path_join env [chatSessionsPath, file]) of
              Inl _ \<Rightarrow> (True, acc, s)
            | Inr st \<Rightarrow>
                if size_st st > MAX_FILE_SIZE_BYTES
                then collect_files env chatSessionsPath workspaceDir files
                       (acc, s\<lparr>scanStats := (scanStats s)
                                  \<lparr>skippedLarge := skippedLarge (scanStats s) + 1\<rparr>\<rparr>)
                else collect_files env chatSessionsPath workspaceDir files
                       (acc @ [\<lparr>c_filePath = path_join env [chatSessionsPath, file],
                                c_workspaceId = workspaceDir, c_stats = st\<rparr>], s)))"

text \<open>The outer loop, over the entries of the storage root.\<close>

fun collect_dirs ::
  "env \<Rightarrow> string \<Rightarrow> string list \<Rightarrow> candidate list \<times> service
     \<Rightarrow> bool \<times> candidate list \<times> service" where
  "collect_dirs env rootPath [] (acc, s) = (False, acc, s)"
| "collect_dirs env rootPath (workspaceDir # dirs) (acc, s) =
     (let chatSessionsPath = path_join env [rootPath, workspaceDir, ''chatSessions'']
      in if \<not> existsSync env chatSessionsPath then collect_dirs env rootPath dirs (acc, s)
         else
           (let s1 = s\<lparr>scanStats := (scanStats s)
                          \<lparr>foldersScanned := foldersScanned (scanStats s) + 1\<rparr>\<rparr>
            in case readdirSync env chatSessionsPath of
                 Inl _ \<Rightarrow> (True, acc, s1)
               | Inr files \<Rightarrow>
                   (case collect_files env chatSessionsPath workspaceDir files (acc, s1) of
                      (True, acc', s2) \<Rightarrow> (True, acc', s2)
                    | (False, acc', s2) \<Rightarrow> collect_dirs env rootPath dirs (acc', s2))))"

text \<open>The cache entry of a path when it is valid for the current size and time.\<close>

definition cache_hit :: "service \<Rightarrow> candidate \<Rightarrow> CachedChatMeta option" where
  "cache_hit s c =
     (case map_of (fileMetaCache s) (c_filePath c) of
        Some cached \<Rightarrow>
          if mtime_m cached = mtimeMs (c_stats c) \<and> size_m cached = size_st (c_stats c)
          then Some cached else None
      | None \<Rightarrow> None)"

text \<open>
  \<open>processFileFast\<close> is an \<open>async\<close> function with one \<open>await\<close>, on the result of
  \<open>parseMetadataFast\<close> (which itself never waits).  A call runs up to that point at
  once (\<open>processFileFast_start\<close>): on a hit it has returned the cached summary or thrown;
  on a miss the extraction has run and the rest of the call (\<open>processFileFast_resume\<close>)
  is pending.
\<close>

datatype started = Hit js | Threw | Pending candidate "js option"

definition processFileFast_start :: "env \<Rightarrow> service \<Rightarrow> candidate \<Rightarrow> started \<times> service" where
  "processFileFast_start env s c =
     (case cache_hit s c of
        Some cached \<Rightarrow>
          (let s1 = s\<lparr>scanStats := (scanStats s)
                         \<lparr>skippedCached := skippedCached (scanStats s) + 1\<rparr>\<rparr>
           in case get (chat_m cached) ''id'' of
                Inl _ \<Rightarrow> (Threw, s1)
              | Inr cid \<Rightarrow>
                  (Hit (chat_m cached),
                   s1\<lparr>chatFilePaths := map_set (chatFilePaths s1) cid (c_filePath c)\<rparr>))
      | None \<Rightarrow>
          (case parseMetadataFast env s (c_filePath c) (c_workspaceId c) (size_st (c_stats c)) of
             (r, s1) \<Rightarrow> (Pending c r, s1)))"

definition processFileFast_resume :: "service \<Rightarrow> candidate \<Rightarrow> js option \<Rightarrow> service" where
  "processFileFast_resume s c r =
     (case r of
        Some summary \<Rightarrow>
          s\<lparr>fileMetaCache :=
              map_set (fileMetaCache s) (c_filePath c)
                \<lparr>id_m = getq summary ''id'', filePath_m = c_filePath c,
                 mtime_m = mtimeMs (c_stats c), size_m = size_st (c_stats c),
                 chat_m = summary\<rparr>,
            chatFilePaths := map_set (chatFilePaths s) (getq summary ''id'') (c_filePath c)\<rparr>
      | None \<Rightarrow> s)"

text \<open>The value a started call resolves to: \<open>None\<close> is \<open>null\<close>.\<close>

definition started_value :: "started \<Rightarrow> js option" where
  "started_value st = (case st of Hit v \<Rightarrow> Some v | Threw \<Rightarrow> None | Pending c r \<Rightarrow> r)"

definition resume :: "service \<Rightarrow> started \<Rightarrow> service" where
  "resume s st = (case st of Pending c r \<Rightarrow> processFileFast_resume s c r | _ \<Rightarrow> s)"

text \<open>One call of \<open>processFileFast\<close>, awaited on its own: \<open>Inl\<close> when it throws.\<close>

definition processFileFast :: "env \<Rightarrow> service \<Rightarrow> candidate \<Rightarrow> (exn + js option) \<times> service" where
  "processFileFast env s c =
     (case processFileFast_start env s c of
        (st, s1) \<Rightarrow> (if st = Threw then Inl TypeError else Inr (started_value st), resume s1 st))"

text \<open>
  \<open>Promise.all(batch.map(...))\<close>: every call of the batch is started, in order, and
  then the pending calls are resumed, in order.
\<close>

fun start_all :: "env \<Rightarrow> candidate list \<Rightarrow> service \<Rightarrow> started list \<times> service" where
  "start_all env [] s = ([], s)"
| "start_all env (c # cs) s =
     (case processFileFast_start env s c of
        (st, s1) \<Rightarrow> (case start_all env cs s1 of (sts, s2) \<Rightarrow> (st # sts, s2)))"

definition process_batch :: "env \<Rightarrow> candidate list \<Rightarrow> service \<Rightarrow> started list \<times> service" where
  "process_batch env batch s =
     (case start_all env batch s of (sts, s1) \<Rightarrow> (sts, foldl resume s1 sts))"

text \<open>\<open>filesToProcess.slice(i, i + n)\<close> for \<open>i = 0, n, 2n, ...\<close>\<close>

fun batches :: "nat \<Rightarrow> 'a list \<Rightarrow> 'a list list" where
  "batches n [] = []"
| "batches n (x # xs) = take n (x # xs) # batches n (drop (n - 1) xs)"

text \<open>
  The loop over the batches.  The first component tells whether a call of a batch threw,
  which rejects \<open>Promise.all\<close>; \<open>chats\<close> are the summaries collected so far.
\<close>

fun run_batches ::
  "env \<Rightarrow> candidate list list \<Rightarrow> js list \<times> service \<Rightarrow> bool \<times> js list \<times> service" where
  "run_batches env [] (chats, s) = (False, chats, s)"
| "run_batches env (batch # rest) (chats, s) =
     (case process_batch env batch s of
        (sts, s1) \<Rightarrow>
          if Threw \<in> set sts then (True, chats, s1)
          else run_batches env rest (chats @ List.map_filter started_value sts, s1))"

text \<open>\<open>cachedChats.clear()\<close> and the loop that fills it again.\<close>

definition index_of :: "js list \<Rightarrow> (js \<times> js) list" where
  "index_of chats = foldl (\<lambda>m c. map_set m (getq c ''id'') c) [] chats"

text \<open>The \<open>catch\<close> block of the scan.\<close>

definition scan_failed :: "service \<Rightarrow> js list \<times> service" where
  "scan_failed s = (getAllChats s, count_error s)"

definition FRESHNESS_MS :: int where
  "FRESHNESS_MS = 30000"

text \<open>
  The five ways a call of \<open>scanAllChatHistories\<close> ends: the early return while a scan
  is in progress; the early return on a fresh Index; \<open>return []\<close> when the storage root
  does not exist; the \<open>catch\<close> block; and \<open>return chats\<close> at the end of the pass,
  the only one that follows the assignment of \<open>_lastScanTime\<close>.
\<close>

datatype scan_exit = Busy | StillFresh | NoStorage | Aborted | Completed

text \<open>
  The body of \<open>scanAllChatHistories\<close>, with the exit taken.  A call runs to its end
  before anything else looks at the service, so \<open>_scanInProgress\<close>, set on the way in
  and cleared in \<open>finally\<close>, is false again in every state returned past the two early
  returns.  The write of the cache to the extension storage that follows a scan is outside
  the service state.
\<close>

definition scan_run :: "env \<Rightarrow> bool \<Rightarrow> service \<Rightarrow> scan_exit \<times> js list \<times> service" where
  "scan_run env forceRefresh s =
     (if scanInProgress s then (Busy, getAllChats s, s)
      else if \<not> forceRefresh \<and> now env - lastScanTime s < FRESHNESS_MS
              \<and> length (cachedChats s) > 0
      then (StillFresh, getAllChats s, s)
      else
        (let workspaceStoragePath = getCopilotChatStoragePath env;
             s1 = s\<lparr>storagePath := workspaceStoragePath, scanStats := zero_stats\<rparr>
         in if \<not> existsSync env workspaceStoragePath then (NoStorage, [], s1)
            else
              (case readdirSync env workspaceStoragePath of
                 Inl _ \<Rightarrow> (Aborted, scan_failed s1)
               | Inr workspaceDirs \<Rightarrow>
                   (case collect_dirs env workspaceStoragePath workspaceDirs ([], s1) of
                      (True, filesToProcess, s2) \<Rightarrow> (Aborted, scan_failed s2)
                    | (False, filesToProcess, s2) \<Rightarrow>
                        (case run_batches env (batches MAX_PARALLEL_READS filesToProcess) ([], s2) of
                           (True, chats, s3) \<Rightarrow> (Aborted, scan_failed s3)
                         | (False, chats, s3) \<Rightarrow>
                             (Completed, chats,
                              s3\<lparr>cachedChats := index_of chats,
                                 scanStats := (scanStats s3)\<lparr>chatsFound := length chats\<rparr>,
                                 lastScanTime := now_done env\<rparr>))))))"

definition scanAllChatHistories :: "env \<Rightarrow> bool \<Rightarrow> service \<Rightarrow> js list \<times> service" where
  "scanAllChatHistories env forceRefresh s = snd (scan_run env forceRefresh s)"

section \<open>Deep search (\<open>deepSearch\<close>)\<close>

datatype search_mode = Any | All | Exact

text \<open>
  The number of matches of \<open>new RegExp(escaped, 'gi')\<close> in a text, where \<open>escaped\<close>
  is the pattern \<open>p\<close> with every special character escaped, so that it matches \<open>p\<close>
  literally.  With the flag \<open>i\<close> (and without \<open>u\<close>) a code unit of the pattern
  matches a code unit of the text when both have the same upper-case form; on the code units
  below 256 these are the code units with the same lower-case form.  So a match is a place
  where the text, in lower case, reads \<open>p\<close> in lower case, and \<open>p\<close> is in lower case
  already.  Matches are found left to right and do not overlap.  The empty pattern matches
  once at every position, the end included.
\<close>

fun scan_matches :: "string \<Rightarrow> string \<Rightarrow> nat" where
  "scan_matches p [] = 0"
| "scan_matches p (c # cs) =
     (if p \<noteq> [] \<and> take (length p) (c # cs) = p
      then 1 + scan_matches p (drop (length p - 1) cs)
      else scan_matches p cs)"

definition count_matches :: "string \<Rightarrow> string \<Rightarrow> nat" where
  "count_matches p content =
     (if p = [] then length content + 1 else scan_matches p (toLowerCase content))"

text \<open>The count of one search term.\<close>

definition term_count :: "string \<Rightarrow> string \<Rightarrow> nat" where
  "term_count content t = count_matches (toLowerCase t) content"

record search_result =
  r_chat :: js
  r_wordCounts :: "(string \<times> nat) list"
  r_totalMatches :: nat
  r_filePath :: string

text \<open>The counting part of the loop body: \<open>wordCounts\<close> and \<open>totalMatches\<close>.\<close>

definition count_terms :: "string list \<Rightarrow> search_mode \<Rightarrow> string \<Rightarrow> (string \<times> nat) list \<times> nat" where
  "count_terms searchTerms mode content =
     (if mode = Exact then
        (let n = count_matches (toLowerCase (join_with '' '' searchTerms)) content
         in ([(join_with '' '' searchTerms, n)], n))
      else
        foldl (\<lambda>(wordCounts, totalMatches) t.
                 (map_set wordCounts t (term_count content t), totalMatches + term_count content t))
              ([], 0) searchTerms)"

definition mode_matches :: "string list \<Rightarrow> search_mode \<Rightarrow> (string \<times> nat) list \<times> nat \<Rightarrow> bool" where
  "mode_matches searchTerms mode wt =
     (case mode of
        Any \<Rightarrow> snd wt > 0
      | All \<Rightarrow> list_all (\<lambda>t. (case map_of (fst wt) t of Some n \<Rightarrow> n | None \<Rightarrow> 0) > 0) searchTerms
      | Exact \<Rightarrow> snd wt > 0)"

text \<open>One turn of the loop over \<open>chatFilePaths\<close>: the result pushed, if any.\<close>

definition search_entry ::
  "env \<Rightarrow> service \<Rightarrow> string list \<Rightarrow> search_mode \<Rightarrow> js \<times> string \<Rightarrow> search_result option" where
  "search_entry env s searchTerms mode e =
     (case readFile env (snd e) of
        Inl _ \<Rightarrow> None
      | Inr content \<Rightarrow>
          (let wt = count_terms searchTerms mode content
           in if mode_matches searchTerms mode wt then
                (case map_of (cachedChats s) (fst e) of
                   Some c \<Rightarrow>
                     if truthy c
                     then Some \<lparr>r_chat = c, r_wordCounts = fst wt, r_totalMatches = snd wt,
                                r_filePath = snd e\<rparr>
                     else None
                 | None \<Rightarrow> None)
              else None))"

definition deepSearch :: "env \<Rightarrow> service \<Rightarrow> string list \<Rightarrow> search_mode \<Rightarrow> search_result list" where
  "deepSearch env s searchTerms mode =
     sort_desc r_totalMatches
       (List.map_filter (search_entry env s searchTerms mode) (chatFilePaths s))"

declare collect_files.simps [simp del] collect_dirs.simps [simp del]
  start_all.simps [simp del] run_batches.simps [simp del] batches.simps [simp del]

subsection \<open>What a scan finds on disk\<close>

text \<open>
  The session files below a storage root, as the discoverer is specified: for every entry of
  the root that has a \<open>chatSessions\<close> directory, the files of that directory whose name
  ends in \<open>.json\<close>, in listing order.  A file is too large when its size is above the
  ceiling, and a candidate is within the ceiling when its recorded size is what \<open>stat\<close>
  gives for its path and is not above the ceiling.
\<close>

definition json_paths :: "env \<Rightarrow> string \<Rightarrow> string list \<Rightarrow> string list" where
  "json_paths env chatSessionsPath files =
     map (\<lambda>f. path_join env [chatSessionsPath, f]) (filter (\<lambda>f. ends_with f ''.json'') files)"

definition listed :: "env \<Rightarrow> string \<Rightarrow> string list \<Rightarrow> string list" where
  "listed env rootPath dirs =
     concat (map (\<lambda>d.
        if existsSync env (path_join env [rootPath, d, ''chatSessions''])
        then (case readdirSync env (path_join env [rootPath, d, ''chatSessions'']) of
                Inr files \<Rightarrow> json_paths env (path_join env [rootPath, d, ''chatSessions'']) files
              | Inl _ \<Rightarrow> [])
        else []) dirs)"

definition too_large :: "env \<Rightarrow> string \<Rightarrow> bool" where
  "too_large env p =
     (case statSync env p of Inr st \<Rightarrow> size_st st > MAX_FILE_SIZE_BYTES | Inl _ \<Rightarrow> False)"

definition small_path :: "env \<Rightarrow> string \<Rightarrow> bool" where
  "small_path env p =
     (case statSync env p of Inr st \<Rightarrow> size_st st \<le> MAX_FILE_SIZE_BYTES | Inl _ \<Rightarrow> False)"

definition within_ceiling :: "env \<Rightarrow> candidate \<Rightarrow> bool" where
  "within_ceiling env c =
     (statSync env (c_filePath c) = Inr (c_stats c) \<and> size_st (c_stats c) \<le> MAX_FILE_SIZE_BYTES)"

text \<open>
  A summary that comes from a file within the ceiling: the summary that the cache of the
  service \<open>t\<close> holds for the path of such a file, or the summary that metadata extraction
  yields for such a file.
\<close>

definition from_small_file :: "env \<Rightarrow> service \<Rightarrow> js \<Rightarrow> bool" where
  "from_small_file env t summary =
     (\<exists>c. within_ceiling env c
         \<and> ((\<exists>m. (c_filePath c, m) \<in> set (fileMetaCache t) \<and> chat_m m = summary)
            \<or> parseMetadata_try env (c_filePath c) (c_workspaceId c) (size_st (c_stats c))
                = Inr (Some summary)))"

text \<open>
  What a scan started in the service \<open>t\<close> may have done to the two tables when it has
  reached the service \<open>s\<close>: an entry of \<open>chatFilePaths\<close> is an entry of \<open>t\<close> or
  points to a file within the ceiling, and an entry of \<open>fileMetaCache\<close> is an entry of
  \<open>t\<close> or is for a file within the ceiling and holds a summary that comes from such a
  file.  A started call of \<open>processFileFast\<close> is in order when what it returns or is
  about to store comes from a file within the ceiling.
\<close>

definition scan_inv :: "env \<Rightarrow> service \<Rightarrow> service \<Rightarrow> bool" where
  "scan_inv env t s =
     ((\<forall>i p. (i, p) \<in> set (chatFilePaths s) \<longrightarrow>
               (i, p) \<in> set (chatFilePaths t) \<or> small_path env p)
      \<and> (\<forall>p m. (p, m) \<in> set (fileMetaCache s) \<longrightarrow>
               (p, m) \<in> set (fileMetaCache t)
               \<or> (small_path env p \<and> from_small_file env t (chat_m m)))
      \<and> cachedChats s = cachedChats t)"

definition ok_started :: "env \<Rightarrow> service \<Rightarrow> started \<Rightarrow> bool" where
  "ok_started env t st =
     (case st of
        Hit v \<Rightarrow> from_small_file env t v
      | Threw \<Rightarrow> True
      | Pending c r \<Rightarrow>
          within_ceiling env c
          \<and> (\<forall>summary. r = Some summary \<longrightarrow>
                parseMetadata_try env (c_filePath c) (c_workspaceId c) (size_st (c_stats c))
                  = Inr (Some summary)))"

subsection \<open>What a search counts\<close>

text \<open>
  The occurrences of a phrase in a text, case ignored, as the search is specified.  Two code
  units are the same letter when they are equal, or when one of them is an upper-case letter
  (\<open>A\<close> to \<open>Z\<close>, or U+00C0 to U+00DE without U+00D7) and the other is the code unit
  32 above it, which is its lower-case form.  The phrase occurs at position \<open>i\<close> of the
  text when the text holds, from \<open>i\<close> on, the letters of the phrase one by one; the
  empty phrase occurs at every position, the end of the text included.  \<open>occurrences\<close>
  counts the positions at which the phrase occurs.
\<close>

definition upper_code :: "nat \<Rightarrow> bool" where
  "upper_code n = ((65 \<le> n \<and> n \<le> 90) \<or> (192 \<le> n \<and> n \<le> 222 \<and> n \<noteq> 215))"

definition same_letter :: "char \<Rightarrow> char \<Rightarrow> bool" where
  "same_letter a b =
     (a = b \<or> (upper_code (of_char a) \<and> of_char b = (of_char a :: nat) + 32)
            \<or> (upper_code (of_char b) \<and> of_char a = (of_char b :: nat) + 32))"

definition occurs_at :: "string \<Rightarrow> string \<Rightarrow> nat \<Rightarrow> bool" where
  "occurs_at phrase content i =
     (i + length phrase \<le> length content
      \<and> list_all2 same_letter (take (length phrase) (drop i content)) phrase)"

definition occurrences :: "string \<Rightarrow> string \<Rightarrow> nat" where
  "occurrences phrase content =
     length (filter (occurs_at phrase content) [0..<Suc (length content)])"

text \<open>
  Places of a text at which the phrase occurs and which do not overlap: each is at least the
  length of the phrase after the one before (and, for the empty phrase, after it at all).
\<close>

definition disjoint_places :: "string \<Rightarrow> string \<Rightarrow> nat list \<Rightarrow> bool" where
  "disjoint_places phrase content ps =
     (list_all (occurs_at phrase content) ps
      \<and> sorted_wrt (\<lambda>i j. i + max 1 (length phrase) \<le> j) ps)"

section \<open>Concrete environments and data\<close>

text \<open>
  An environment with no files, and the data on which the theorems below are instantiated.
\<close>

definition base_env :: env where
  "base_env =
     \<lparr>existsSync = (\<lambda>p. False), readdirSync = (\<lambda>p. Inl IOError),
      statSync = (\<lambda>p. Inl IOError), readPrefix = (\<lambda>p n. Inl IOError),
      readFile = (\<lambda>p. Inl IOError), JSON_parse = (\<lambda>t. Inl SyntaxError),
      JSON_stringify = (\<lambda>v. ''json''), now = 5000, now_done = 5002,
      path_join = join_with ''/'', basename = (\<lambda>p e. p), dirname = (\<lambda>p. p),
      generateId = show_nat, date_toString = (\<lambda>d. []), date_toNumber = (\<lambda>d. JNaN),
      date_toJSON = (\<lambda>d. JNull), string_toNumber = (\<lambda>t. JNaN),
      config_storagePath = [], userDataPath = ''home''\<rparr>"

text \<open>A file \<open>p\<close> whose text is \<open>t\<close>, which parses to \<open>d\<close>.\<close>

definition with_file :: "env \<Rightarrow> string \<Rightarrow> string \<Rightarrow> js \<Rightarrow> env" where
  "with_file env p t d =
     env\<lparr>readPrefix := (\<lambda>q n. if q = p then Inr (take n t) else readPrefix env q n),
         readFile := (\<lambda>q. if q = p then Inr t else readFile env q),
         JSON_parse := (\<lambda>u. if u = t then Inr d else JSON_parse env u)\<rparr>"

definition demo_chat :: ChatHistory where
  "demo_chat =
     \<lparr>h_id = ''s1'', h_workspacePath = ''w1'', h_workspaceName = ''proj'',
      h_createdAt = JNum 1000, h_updatedAt = JNum 2000,
      h_firstMessage = ''hello'', h_lastMessage = ''hello'',
      h_messageCount = 2, h_fileSize = 120,
      h_messages =
        [\<lparr>m_id = ''m1'', m_role = User, m_content = ''hello'', m_timestamp = JNum 1000\<rparr>,
         \<lparr>m_id = ''m2'', m_role = Assistant, m_content = ''hi'', m_timestamp = JNum 2000\<rparr>],
      h_tags = [''gpt''], h_attachedProject = None\<rparr>"

definition demo_import_env :: env where
  "demo_import_env =
     with_file base_env ''out.json'' (exportChats_json base_env [js_of_chat demo_chat])
       (export_payload base_env [demo_chat])"

text \<open>A file with a \<open>chats\<close> array whose second entry is \<open>null\<close>.\<close>

definition null_entry_doc :: js where
  "null_entry_doc = JObj [(''chats'', JArr [JObj [(''id'', JStr ''a'')], JNull])]"

definition null_entry_env :: env where
  "null_entry_env = with_file base_env ''in.json'' ''chats-with-null'' null_entry_doc"

text \<open>
  A native session file of two turns: the first has a request text and a direct response
  value, the second has a request text and no response.
\<close>

definition demo_turn1 :: js where
  "demo_turn1 =
     JObj [(''message'', JObj [(''text'', JStr ''what is a shader'')]),
           (''response'', JObj [(''value'', JStr ''a program for the GPU'')])]"

definition demo_turn2 :: js where
  "demo_turn2 = JObj [(''message'', JObj [(''text'', JStr ''thanks'')])]"

definition demo_session :: js where
  "demo_session =
     JObj [(''sessionId'', JStr ''s1''),
           (''creationDate'', JNum 1000),
           (''lastMessageDate'', JNum 2000),
           (''requests'', JArr [demo_turn1, demo_turn2])]"

definition demo_path :: string where
  "demo_path = ''home/workspaceStorage/w1/chatSessions/s1.json''"

definition demo_session_env :: env where
  "demo_session_env = with_file base_env demo_path ''session-text'' demo_session"

definition demo_summary_props :: "(string \<times> js) list" where
  "demo_summary_props =
     [(''id'', JStr ''s1''), (''workspacePath'', JStr ''w1''),
      (''workspaceName'', JStr ''Workspace w1''),
      (''createdAt'', JDate (JNum 1000)), (''updatedAt'', JDate (JNum 2000)),
      (''firstMessage'', JStr ''what is a shader''), (''lastMessage'', JStr ''thanks''),
      (''messageCount'', JNum 4), (''fileSize'', JNum 12), (''messages'', JArr []),
      (''tags'', JArr [JStr ''Unknown'']), (''attachedProject'', JNull)]"

definition demo_messages :: "js list" where
  "demo_messages =
     [JObj [(''id'', JStr ''0''), (''role'', JStr ''user''),
            (''content'', JStr ''what is a shader''), (''timestamp'', JDate (JNum 1000))],
      JObj [(''id'', JStr ''1''), (''role'', JStr ''assistant''),
            (''content'', JStr ''a program for the GPU''), (''timestamp'', JDate (JNum 2000))],
      JObj [(''id'', JStr ''2''), (''role'', JStr ''user''),
            (''content'', JStr ''thanks''), (''timestamp'', JDate (JNum 1000))]]"

definition demo_indexed :: service where
  "demo_indexed =
     empty_service\<lparr>cachedChats := [(JStr ''s1'', JObj demo_summary_props)],
                   chatFilePaths := [(JStr ''s1'', demo_path)]\<rparr>"

text \<open>
  A storage root without any workspace directory; the state after a scan of it; and the
  same root a second later, now with the session file above in a workspace \<open>w1\<close>.
\<close>

definition empty_root_env :: env where
  "empty_root_env =
     base_env\<lparr>existsSync := (\<lambda>p. p = ''home/workspaceStorage''),
              readdirSync := (\<lambda>p. if p = ''home/workspaceStorage'' then Inr [] else Inl IOError)\<rparr>"

definition after_empty_scan :: service where
  "after_empty_scan = snd (scanAllChatHistories empty_root_env False empty_service)"

definition demo_stats :: stats where
  "demo_stats = \<lparr>size_st = 12, mtimeMs = 7\<rparr>"

definition one_session_env :: env where
  "one_session_env =
     demo_session_env
       \<lparr>existsSync := (\<lambda>p. p = ''home/workspaceStorage''
                             \<or> p = ''home/workspaceStorage/w1/chatSessions''),
        readdirSync := (\<lambda>p. if p = ''home/workspaceStorage'' then Inr [''w1'']
                              else if p = ''home/workspaceStorage/w1/chatSessions''
                              then Inr [''s1.json''] else Inl IOError),
        statSync := (\<lambda>p. if p = demo_path then Inr demo_stats else Inl IOError),
        now := 6000, now_done := 6001\<rparr>"

definition demo_candidate :: candidate where
  "demo_candidate = \<lparr>c_filePath = demo_path, c_workspaceId = ''w1'', c_stats = demo_stats\<rparr>"

text \<open>The service once the session file has been scanned: indexed and cached.\<close>

definition demo_meta :: CachedChatMeta where
  "demo_meta =
     \<lparr>id_m = JStr ''s1'', filePath_m = demo_path, mtime_m = 7, size_m = 12,
      chat_m = JObj demo_summary_props\<rparr>"

definition demo_cached :: service where
  "demo_cached = demo_indexed\<lparr>fileMetaCache := [(demo_path, demo_meta)]\<rparr>"

text \<open>The same workspace with a second session file, of 60 000 000 bytes.\<close>

definition big_path :: string where
  "big_path = ''home/workspaceStorage/w1/chatSessions/big.json''"

definition big_stats :: stats where
  "big_stats = \<lparr>size_st = 60000000, mtimeMs = 9\<rparr>"

definition big_file_env :: env where
  "big_file_env =
     one_session_env
       \<lparr>readdirSync := (\<lambda>p. if p = ''home/workspaceStorage'' then Inr [''w1'']
                              else if p = ''home/workspaceStorage/w1/chatSessions''
                              then Inr [''s1.json'', ''big.json''] else Inl IOError),
        statSync := (\<lambda>p. if p = demo_path then Inr demo_stats
                           else if p = big_path then Inr big_stats else Inl IOError)\<rparr>"

text \<open>The service after a first scan of the workspace with the one session file.\<close>

definition after_first_scan :: service where
  "after_first_scan =
     empty_service\<lparr>cachedChats := [(JStr ''s1'', JObj demo_summary_props)],
                   chatFilePaths := [(JStr ''s1'', demo_path)],
                   fileMetaCache := [(demo_path, demo_meta)],
                   storagePath := ''home/workspaceStorage'',
                   scanStats := zero_stats\<lparr>foldersScanned := 1, chatsFound := 1\<rparr>,
                   lastScanTime := 6001\<rparr>"

text \<open>
  A machine without a storage root, at a time when the Index (restored from the extension
  storage, say) is older than the window; and the service after a scan request there.
\<close>

definition no_root_env :: env where
  "no_root_env = base_env\<lparr>now := 100000, now_done := 100001\<rparr>"

definition after_no_root :: service where
  "after_no_root =
     demo_indexed\<lparr>storagePath := ''home/workspaceStorage'', scanStats := zero_stats\<rparr>"

text \<open>
  The file \<open>big.json\<close> was indexed and cached when it had 40 bytes.  It has 60 000 000
  bytes now.  In \<open>big_file_env\<close> a scan runs to its end; in \<open>vanished_file_env\<close> the
  directory lists \<open>big.json\<close> and then \<open>s1.json\<close>, which is gone by the time the scan
  asks for its size, so \<open>statSync\<close> throws.
\<close>

definition big_summary_props :: "(string \<times> js) list" where
  "big_summary_props =
     [(''id'', JStr ''big''), (''workspacePath'', JStr ''w1''),
      (''workspaceName'', JStr ''Workspace w1''),
      (''createdAt'', JDate (JNum 1000)), (''updatedAt'', JDate (JNum 2000)),
      (''firstMessage'', JStr ''hello''), (''lastMessage'', JStr ''hello''),
      (''messageCount'', JNum 2), (''fileSize'', JNum 40), (''messages'', JArr []),
      (''tags'', JArr [JStr ''Unknown'']), (''attachedProject'', JNull)]"

definition big_meta :: CachedChatMeta where
  "big_meta =
     \<lparr>id_m = JStr ''big'', filePath_m = big_path, mtime_m = 3, size_m = 40,
      chat_m = JObj big_summary_props\<rparr>"

definition big_indexed :: service where
  "big_indexed =
     empty_service\<lparr>cachedChats := [(JStr ''big'', JObj big_summary_props)],
                   chatFilePaths := [(JStr ''big'', big_path)],
                   fileMetaCache := [(big_path, big_meta)]\<rparr>"

definition after_big_scan :: service where
  "after_big_scan =
     empty_service\<lparr>cachedChats := [(JStr ''s1'', JObj demo_summary_props)],
                   chatFilePaths := [(JStr ''big'', big_path), (JStr ''s1'', demo_path)],
                   fileMetaCache := [(big_path, big_meta), (demo_path, demo_meta)],
                   storagePath := ''home/workspaceStorage'',
                   scanStats := zero_stats\<lparr>foldersScanned := 1, chatsFound := 1,
                                             skippedLarge := 1\<rparr>,
                   lastScanTime := 6001\<rparr>"

definition vanished_file_env :: env where
  "vanished_file_env =
     one_session_env
       \<lparr>readdirSync := (\<lambda>p. if p = ''home/workspaceStorage'' then Inr [''w1'']
                              else if p = ''home/workspaceStorage/w1/chatSessions''
                              then Inr [''big.json'', ''s1.json''] else Inl IOError),
        statSync := (\<lambda>p. if p = big_path then Inr big_stats else Inl IOError)\<rparr>"

definition after_aborted_scan :: service where
  "after_aborted_scan =
     big_indexed\<lparr>storagePath := ''home/workspaceStorage'',
                 scanStats := zero_stats\<lparr>foldersScanned := 1, errors := 1,
                                           skippedLarge := 1\<rparr>\<rparr>"

text \<open>
  The same two environments at a later time: the scan that is aborted ends at 100001, and a
  millisecond later \<open>s1.json\<close> is back.
\<close>

definition late_vanished_env :: env where
  "late_vanished_env = vanished_file_env\<lparr>now := 100000, now_done := 100001\<rparr>"

definition late_big_file_env :: env where
  "late_big_file_env = big_file_env\<lparr>now := 100002, now_done := 100003\<rparr>"




section \<open>Properties of topic extraction\<close>







section \<open>Properties of import and export\<close>

lemma exported_message_eq:
  "exported_message dj m =
     JObj [(''id'', JStr (m_id m)), (''role'', JStr (role_name (m_role m))),
           (''content'', JStr (m_content m)), (''timestamp'', dj (m_timestamp m))]"
  by (simp add: exported_message_def js_of_message_def)

lemma exported_chat_eq:
  "exported_chat dj c =
     JObj [(''id'', JStr (h_id c)),
           (''workspacePath'', JStr (h_workspacePath c)),
           (''workspaceName'', JStr (h_workspaceName c)),
           (''createdAt'', dj (h_createdAt c)),
           (''updatedAt'', dj (h_updatedAt c)),
           (''firstMessage'', JStr (h_firstMessage c)),
           (''lastMessage'', JStr (h_lastMessage c)),
           (''messageCount'', JNum (h_messageCount c)),
           (''fileSize'', JNum (h_fileSize c)),
           (''messages'', JArr (map (exported_message dj) (h_messages c))),
           (''tags'', JArr (map JStr (h_tags c))),
           (''attachedProject'', (case h_attachedProject c of None \<Rightarrow> JNull | Some p \<Rightarrow> JStr p))]"
  by (simp add: exported_chat_def js_of_chat_def exported_message_def js_of_message_def split: option.split)

lemma revive_exported_message: "revive_message (exported_message dj m) = Inr (imported_message dj m)"
  by (simp add: revive_message_def exported_message_eq imported_message_def get_def nullish_def and_then_def own_props_def)

lemma revive_exported_messages:
  "map_exn revive_message (map (exported_message dj) ms) = Inr (map (imported_message dj) ms)"
  by (induction ms) (simp_all add: revive_exported_message)

lemma import_entry_try_exported:
  "import_entry_try m (exported_chat dj c) =
     Inr (if map_has m (JStr (h_id c)) then (True, m)
          else (False, map_set m (JStr (h_id c)) (imported_chat dj c)))"
  by (simp add: import_entry_try_def exported_chat_eq imported_chat_def get_def nullish_def and_then_def
      js_or_def revive_messages_def revive_exported_messages)

lemma import_entry_exported:
  "import_entry (exported_chat dj c) (r, m) =
     Inr (if map_has m (JStr (h_id c)) then (r\<lparr>skippedCount := skippedCount r + 1\<rparr>, m)
          else (r\<lparr>importedCount := importedCount r + 1\<rparr>,
                map_set m (JStr (h_id c)) (imported_chat dj c)))"
  by (simp add: import_entry_def import_entry_try_exported)

lemma import_entries_skip_all:
  "\<forall>c\<in>set cs. map_has m (JStr (h_id c)) \<Longrightarrow>
     import_entries (map (exported_chat dj) cs) (r, m)
       = (False, r\<lparr>skippedCount := skippedCount r + length cs\<rparr>, m)"
  by (induction cs arbitrary: r) (simp_all add: import_entry_exported)

lemma map_has_set: "map_has (map_set m k v) k' = (k' = k \<or> map_has m k')"
  by (simp add: map_has_def map_set_def update_conv')

lemma map_set_fresh: "\<not> map_has m k \<Longrightarrow> map_set m k v = m @ [(k, v)]"
  by (induction m) (auto simp: map_has_def map_set_def)

lemma import_entries_exported:
  "import_entries (map (exported_chat dj) cs) (r, m) = (t, r', m') \<Longrightarrow>
     \<not> t \<and> errors_r r' = errors_r r \<and> (\<forall>c\<in>set cs. map_has m' (JStr (h_id c)))
     \<and> (\<forall>k. map_has m k \<longrightarrow> map_has m' k)"
proof (induction cs arbitrary: r m)
  case Nil
  then show ?case by simp
next
  case (Cons c cs)
  show ?case
  proof (cases "map_has m (JStr (h_id c))")
    case True
    with Cons.prems have "import_entries (map (exported_chat dj) cs)
        (r\<lparr>skippedCount := skippedCount r + 1\<rparr>, m) = (t, r', m')"
      by (simp add: import_entry_exported)
    from Cons.IH [OF this] True show ?thesis by simp
  next
    case False
    with Cons.prems have "import_entries (map (exported_chat dj) cs)
        (r\<lparr>importedCount := importedCount r + 1\<rparr>, map_set m (JStr (h_id c)) (imported_chat dj c))
          = (t, r', m')"
      by (simp add: import_entry_exported)
    from Cons.IH [OF this] show ?thesis by (simp add: map_has_set)
  qed
qed

lemma import_entries_fresh:
  "distinct (map h_id cs) \<Longrightarrow> \<forall>c\<in>set cs. \<not> map_has m (JStr (h_id c)) \<Longrightarrow>
     import_entries (map (exported_chat dj) cs) (r, m)
       = (False, r\<lparr>importedCount := importedCount r + length cs\<rparr>,
          m @ map (\<lambda>c. (JStr (h_id c), imported_chat dj c)) cs)"
proof (induction cs arbitrary: r m)
  case Nil
  then show ?case by simp
next
  case (Cons c cs)
  have fresh: "\<forall>d\<in>set cs. \<not> map_has (map_set m (JStr (h_id c)) (imported_chat dj c)) (JStr (h_id d))"
    using Cons.prems by (auto simp: map_has_set) (metis imageI)
  have "distinct (map h_id cs)" using Cons.prems by simp
  from Cons.IH [OF this fresh] Cons.prems show ?case
    by (simp add: import_entry_exported map_set_fresh)
qed

lemma export_payload_chats:
  "getq (export_payload env cs) ''chats'' = JArr (map (exported_chat (date_toJSON env)) cs)"
  by (simp add: export_payload_def export_data_def exported_chat_def js_of_chat_def)

lemma export_payload_not_nullish: "\<not> nullish (export_payload env cs)"
  by (simp add: export_payload_def export_data_def nullish_def)

lemma import_data_payload:
  "import_data env s p (export_payload env0 cs) =
     (case import_entries (map (exported_chat (date_toJSON env0)) cs) (empty_result, cachedChats s) of
        (thrown, r, m) \<Rightarrow> (if thrown then parse_failed r else finish r, s\<lparr>cachedChats := m\<rparr>))"
  by (simp add: import_data_def export_payload_chats export_payload_not_nullish is_array_def elements_def)



lemma finish_simps:
  "importedCount (finish r) = importedCount r" "skippedCount (finish r) = skippedCount r"
  "errors_r (finish r) = errors_r r" "success (finish r) = (importedCount r > 0 \<or> skippedCount r > 0)"
  by (simp_all add: finish_def)


text \<open>
  C4 (round trip): summaries with pairwise distinct identities (the invariant of an Index)
  are exported as \<open>json\<close>; the file holds the exported text and the parser reads the
  exported document back from it.  Importing that file into an empty Index imports every
  entry, and the Index then holds as many sessions as were exported, in the same order,
  each with the identity, the message count and the messages (identifier, role and content,
  in order) of the exported summary.
\<close>

theorem C4_export_import_round_trip:
  assumes ids: "distinct (map h_id cs)"
    and rd: "readFile env p = Inr (exportChats_json env0 (map js_of_chat cs))"
    and parse: "JSON_parse env (exportChats_json env0 (map js_of_chat cs))
                  = Inr (export_payload env0 cs)"
  shows "case importChats env empty_service p of (r, s') \<Rightarrow>
           importedCount r = length cs \<and> skippedCount r = 0 \<and> errors_r r = []
           \<and> length (cachedChats s') = length cs
           \<and> map session_view (cachedChats s') = map summary_view cs"
proof -
  have imp: "importChats env empty_service p
               = import_data env empty_service p (export_payload env0 cs)"
    using rd parse by (simp add: importChats_def and_then_def)
  have fresh: "\<forall>c\<in>set cs. \<not> map_has (cachedChats empty_service) (JStr (h_id c))"
    by (simp add: empty_service_def map_has_def)
  have view: "session_view (JStr (h_id c), imported_chat dj c) = summary_view c" for c dj
    by (simp add: session_view_def summary_view_def imported_chat_def elements_def
        message_core_def imported_message_def comp_def)
  have run: "import_entries (map (exported_chat (date_toJSON env0)) cs)
      (empty_result, cachedChats empty_service)
        = (False, empty_result\<lparr>importedCount := importedCount empty_result + length cs\<rparr>,
           map (\<lambda>c. (JStr (h_id c), imported_chat (date_toJSON env0) c)) cs)"
    using import_entries_fresh [OF ids fresh, of "date_toJSON env0" empty_result]
    by (simp add: empty_service_def)
  show ?thesis
    unfolding imp import_data_payload run
    by (simp add: finish_simps empty_result_def view comp_def)
qed

theorem C4_export_import_round_trip_witness:
  "distinct (map h_id [demo_chat])
   \<and> readFile demo_import_env ''out.json''
       = Inr (exportChats_json base_env (map js_of_chat [demo_chat]))
   \<and> JSON_parse demo_import_env (exportChats_json base_env (map js_of_chat [demo_chat]))
       = Inr (export_payload base_env [demo_chat])
   \<and> (case importChats demo_import_env empty_service ''out.json'' of (r, s') \<Rightarrow>
         importedCount r = length [demo_chat] \<and> skippedCount r = 0 \<and> errors_r r = []
         \<and> length (cachedChats s') = length [demo_chat]
         \<and> map session_view (cachedChats s') = map summary_view [demo_chat])"
proof -
  have a: "distinct (map h_id [demo_chat])" by simp
  have b: "readFile demo_import_env ''out.json''
             = Inr (exportChats_json base_env (map js_of_chat [demo_chat]))"
    by (simp add: demo_import_env_def with_file_def)
  have c: "JSON_parse demo_import_env (exportChats_json base_env (map js_of_chat [demo_chat]))
             = Inr (export_payload base_env [demo_chat])"
    by (simp add: demo_import_env_def with_file_def)
  from a b c C4_export_import_round_trip [OF a b c] show ?thesis by blast
qed

text \<open>
  C5 (idempotence of import): the file holds the text of a \<open>json\<close> export and the parser
  reads the exported document back from it.  After a first import of the file into any
  Index, a second import of the same file imports nothing, reports every entry as skipped,
  reports no error and leaves the service, the Index included, as it was.
\<close>

theorem C5_import_twice_skips_all:
  assumes rd: "readFile env p = Inr (exportChats_json env0 (map js_of_chat cs))"
    and parse: "JSON_parse env (exportChats_json env0 (map js_of_chat cs))
                  = Inr (export_payload env0 cs)"
  shows "case importChats env s p of (r1, s1) \<Rightarrow>
           (case importChats env s1 p of (r2, s2) \<Rightarrow>
              importedCount r2 = 0 \<and> skippedCount r2 = length cs \<and> errors_r r2 = []
              \<and> s2 = s1)"
proof -
  have imp: "importChats env s' p = import_data env s' p (export_payload env0 cs)" for s'
    using rd parse by (simp add: importChats_def and_then_def)
  obtain t r m where first: "import_entries (map (exported_chat (date_toJSON env0)) cs)
      (empty_result, cachedChats s) = (t, r, m)"
    by (cases "import_entries (map (exported_chat (date_toJSON env0)) cs)
                 (empty_result, cachedChats s)") auto
  from import_entries_exported [OF first]
  have t: "\<not> t" and present: "\<forall>c\<in>set cs. map_has m (JStr (h_id c))" by auto
  have one: "importChats env s p = (finish r, s\<lparr>cachedChats := m\<rparr>)"
    using first t by (simp add: imp import_data_payload)
  have two: "importChats env (s\<lparr>cachedChats := m\<rparr>) p
      = (finish (empty_result\<lparr>skippedCount := skippedCount empty_result + length cs\<rparr>),
         s\<lparr>cachedChats := m\<rparr>)"
    using import_entries_skip_all [OF present, of "date_toJSON env0" empty_result]
    by (simp add: imp import_data_payload)
  show ?thesis
    by (simp add: one two finish_simps empty_result_def)
qed

theorem C5_import_twice_skips_all_witness:
  "readFile demo_import_env ''out.json''
       = Inr (exportChats_json base_env (map js_of_chat [demo_chat]))
   \<and> JSON_parse demo_import_env (exportChats_json base_env (map js_of_chat [demo_chat]))
       = Inr (export_payload base_env [demo_chat])
   \<and> (case importChats demo_import_env empty_service ''out.json'' of (r1, s1) \<Rightarrow>
         (case importChats demo_import_env s1 ''out.json'' of (r2, s2) \<Rightarrow>
            importedCount r2 = 0 \<and> skippedCount r2 = length [demo_chat] \<and> errors_r r2 = []
            \<and> s2 = s1))"
proof -
  have b: "readFile demo_import_env ''out.json''
             = Inr (exportChats_json base_env (map js_of_chat [demo_chat]))"
    by (simp add: demo_import_env_def with_file_def)
  have c: "JSON_parse demo_import_env (exportChats_json base_env (map js_of_chat [demo_chat]))
             = Inr (export_payload base_env [demo_chat])"
    by (simp add: demo_import_env_def with_file_def)
  from b c C5_import_twice_skips_all [OF b c, of empty_service] show ?thesis by blast
qed

text \<open>
  C10 fails on the code.  The file holds \<open>{"chats": [{"id": "a"}, null]}\<close> and the Index
  is empty.  The first entry is imported; the second makes \<open>chat.id\<close> throw, and the
  \<open>catch\<close> block of the entry throws again on the same expression, so the exception
  reaches the outer \<open>catch\<close> and the assignment of \<open>success\<close> is never run: the result
  has \<open>importedCount = 1\<close> and \<open>success = false\<close>.
\<close>

theorem C10_success_false_after_import:
  "fst (importChats null_entry_env empty_service ''in.json'')
     = \<lparr>success = False, importedCount = 1, skippedCount = 0, errors_r = [ParseError]\<rparr>"
  by (simp add: importChats_def null_entry_env_def with_file_def and_then_def import_data_def
      null_entry_doc_def nullish_def is_array_def elements_def import_entry_def
      import_entry_try_def get_def map_has_def map_set_def empty_service_def empty_result_def
      revive_messages_def js_or_def parse_failed_def)

text \<open>
  The two particular cases of C10 hold: an empty \<open>chats\<close> array gives no success and no
  error, and an unrecognized format gives no success.
\<close>

lemma import_empty_chats:
  "getq data ''chats'' = JArr [] \<Longrightarrow>
     fst (import_data env s p data) = empty_result"
  by (cases data) (auto simp: import_data_def nullish_def is_array_def elements_def finish_def
      empty_result_def)

lemma import_unrecognized:
  "\<not> nullish data \<Longrightarrow> \<not> (truthy (getq data ''chats'') \<and> is_array (getq data ''chats'')) \<Longrightarrow>
   \<not> (truthy (getq data ''id'') \<and> truthy (getq data ''messages'')
       \<and> is_array (getq data ''messages'')) \<Longrightarrow>
   \<not> (truthy (getq data ''sessionId'') \<and> truthy (getq data ''requests'')) \<Longrightarrow>
     \<not> success (fst (import_data env s p data))"
  by (auto simp: import_data_def empty_result_def)

section \<open>Properties of metadata extraction and full-content loading\<close>

lemma extract_no_shape:
  "\<not> nullish request \<Longrightarrow> no_response_shape request \<Longrightarrow>
     extractResponseText env request = Inr (JStr [])"
  by (simp add: extractResponseText_def no_response_shape_def get_def and_then_def)



lemma with_messages_obj:
  "\<exists>kvs'. with_messages (JObj kvs) ms = Inr (JObj kvs')
      \<and> map_of kvs' ''messages'' = Some (JArr ms)
      \<and> map_of kvs' ''messageCount'' = Some (JNum (int (length ms)))"
  by (simp add: with_messages_def and_then_def update_conv')

text \<open>
  A whole file of such turns: when every turn is not \<open>null\<close> and has no recognized
  response shape, \<open>loadFullChat\<close> returns the summary (not \<open>null\<close>), and its message
  list holds user messages only, one for every turn that has a request text.
\<close>

lemma collect_unanswered:
  "\<forall>r\<in>set rs. \<not> nullish r \<and> no_response_shape r \<Longrightarrow>
     \<exists>new. collect_messages env data rs acc = Inr (acc @ new)
        \<and> (\<forall>m\<in>set new. getq m ''role'' = JStr ''user'')
        \<and> length new = length (filter (\<lambda>r. truthy (message_text r)) rs)"
proof (induction rs arbitrary: acc)
  case Nil
  then show ?case by simp
next
  case (Cons r rs)
  then have r: "\<not> nullish r" "no_response_shape r"
    and rs: "\<forall>r\<in>set rs. \<not> nullish r \<and> no_response_shape r" by simp_all
  let ?acc = "if truthy (message_text r) then acc @ [user_message env data r (length acc)] else acc"
  have step: "collect_messages env data (r # rs) acc = collect_messages env data rs ?acc"
    using r by (simp add: extract_no_shape get_def and_then_def message_text_def)
  from Cons.IH [OF rs, of ?acc] obtain new where
    n: "collect_messages env data rs ?acc = Inr (?acc @ new)"
    and u: "\<forall>m\<in>set new. getq m ''role'' = JStr ''user''"
    and l: "length new = length (filter (\<lambda>r. truthy (message_text r)) rs)" by blast
  show ?case
  proof (cases "truthy (message_text r)")
    case True
    with step n u l show ?thesis
      by (intro exI [of _ "user_message env data r (length acc) # new"])
         (simp add: user_message_def)
  next
    case False
    with step n u l show ?thesis by (intro exI [of _ new]) simp
  qed
qed

lemma load_unanswered_file:
  assumes "map_of (chatFilePaths s) chatId = Some path" and "path \<noteq> []"
    and "readFile env path = Inr content" and "JSON_parse env content = Inr data"
    and "getq data ''requests'' = JArr rs"
    and "\<forall>r\<in>set rs. \<not> nullish r \<and> no_response_shape r"
    and "map_of (cachedChats s) chatId = Some (JObj kvs)"
  shows "\<exists>ms. fst (loadFullChat env s chatId) \<noteq> JNull
           \<and> getq (fst (loadFullChat env s chatId)) ''messages'' = JArr ms
           \<and> (\<forall>m\<in>set ms. getq m ''role'' = JStr ''user'')
           \<and> length ms = length (filter (\<lambda>r. truthy (message_text r)) rs)"
proof -
  have nn: "\<not> nullish data" using assms(5) by (auto simp: nullish_def)
  from collect_unanswered [OF assms(6), of env data "[]"] obtain ms where
    c: "collect_messages env data rs [] = Inr ms"
    and u: "\<forall>m\<in>set ms. getq m ''role'' = JStr ''user''"
    and l: "length ms = length (filter (\<lambda>r. truthy (message_text r)) rs)" by auto
  have rm: "read_messages env path = Inr ms"
    using assms(3,4,5) nn c
    by (simp add: read_messages_def and_then_def get_def js_or_def js_iter_def)
  obtain kvs' where w: "with_messages (JObj kvs) ms = Inr (JObj kvs')"
    and m: "map_of kvs' ''messages'' = Some (JArr ms)"
    using with_messages_obj by blast
  have "loadFullChat env s chatId = (JObj kvs', s\<lparr>cachedChats := map_set (cachedChats s) chatId (JObj kvs')\<rparr>)"
    using assms(1,2,7) rm w by (simp add: loadFullChat_def)
  with m u l show ?thesis by auto
qed

lemma summary_count:
  assumes "summary_of env filePath workspaceId fileSize data (JArr rs) = Inr (Some summary)"
  shows "getq summary ''messageCount'' = JNum (int (length rs) * 2)"
  using assms
  by (auto simp: summary_of_def and_then_def Let_def js_times_def to_num_def js_toNumber_def
      split: sum.splits)

lemma parse_count:
  assumes "readPrefix env filePath (min fileSize (METADATA_READ_BYTES * 4)) = Inr content"
    and "parse_or_reread env filePath content = Inr data"
    and "getq data ''requests'' = JArr rs"
    and "parseMetadataFast env s filePath workspaceId fileSize = (Some summary, s')"
  shows "getq summary ''messageCount'' = JNum (int (length rs) * 2)"
proof -
  have "\<not> nullish data" using assms(3) by (auto simp: nullish_def)
  with assms
  have "summary_of env filePath workspaceId fileSize data (JArr rs) = Inr (Some summary)"
    by (auto simp: parseMetadataFast_def parseMetadata_try_def and_then_def get_def Let_def
        split: sum.splits if_splits)
  then show ?thesis by (rule summary_count)
qed

lemma load_overwrites:
  assumes "map_of (chatFilePaths s) chatId = Some path" and "path \<noteq> []"
    and "read_messages env path = Inr messages"
    and "map_of (cachedChats s) chatId = Some (JObj kvs)"
  shows "case loadFullChat env s chatId of (c', s2) \<Rightarrow>
           map_of (cachedChats s2) chatId = Some c'
           \<and> getq c' ''messages'' = JArr messages
           \<and> getq c' ''messageCount'' = JNum (int (length messages))"
proof -
  obtain kvs' where w: "with_messages (JObj kvs) messages = Inr (JObj kvs')"
    and m: "map_of kvs' ''messages'' = Some (JArr messages)"
    and n: "map_of kvs' ''messageCount'' = Some (JNum (int (length messages)))"
    using with_messages_obj by blast
  show ?thesis
    using assms w m n by (simp add: loadFullChat_def map_set_def update_conv')
qed

text \<open>
  C8 (two-tier message count).  First tier: when the text read for a file parses to
  \<open>data\<close>, the requests of \<open>data\<close> are the list \<open>rs\<close> and metadata extraction yields
  a summary, the message count of the summary is twice the number of requests.  Second
  tier: when the identity has a backing path whose file is read and parsed into the messages
  \<open>messages\<close> and the Index holds a summary object for the identity, \<open>loadFullChat\<close>
  returns the summary with its message list set to \<open>messages\<close> and its message count set
  to their number, and the Index holds that summary afterwards.
\<close>

theorem C8_two_tier_message_count:
  "(readPrefix env filePath (min fileSize (METADATA_READ_BYTES * 4)) = Inr content \<longrightarrow>
    parse_or_reread env filePath content = Inr data \<longrightarrow>
    getq data ''requests'' = JArr rs \<longrightarrow>
    parseMetadataFast env s filePath workspaceId fileSize = (Some summary, s') \<longrightarrow>
      getq summary ''messageCount'' = JNum (int (length rs) * 2))
   \<and> (map_of (chatFilePaths t) chatId = Some path \<longrightarrow> path \<noteq> [] \<longrightarrow>
      read_messages env path = Inr messages \<longrightarrow>
      map_of (cachedChats t) chatId = Some (JObj kvs) \<longrightarrow>
        (case loadFullChat env t chatId of (c', t') \<Rightarrow>
           map_of (cachedChats t') chatId = Some c'
           \<and> getq c' ''messages'' = JArr messages
           \<and> getq c' ''messageCount'' = JNum (int (length messages))))"
proof (intro conjI impI)
  assume "readPrefix env filePath (min fileSize (METADATA_READ_BYTES * 4)) = Inr content"
    and "parse_or_reread env filePath content = Inr data"
    and "getq data ''requests'' = JArr rs"
    and "parseMetadataFast env s filePath workspaceId fileSize = (Some summary, s')"
  then show "getq summary ''messageCount'' = JNum (int (length rs) * 2)"
    by (rule parse_count)
next
  assume "map_of (chatFilePaths t) chatId = Some path" and "path \<noteq> []"
    and "read_messages env path = Inr messages"
    and "map_of (cachedChats t) chatId = Some (JObj kvs)"
  then show "case loadFullChat env t chatId of (c', t') \<Rightarrow>
           map_of (cachedChats t') chatId = Some c'
           \<and> getq c' ''messages'' = JArr messages
           \<and> getq c' ''messageCount'' = JNum (int (length messages))"
    by (rule load_overwrites)
qed

lemma demo_read_prefix:
  "readPrefix demo_session_env demo_path (min 12 (METADATA_READ_BYTES * 4)) = Inr ''session-text''"
  by (simp add: demo_session_env_def with_file_def METADATA_READ_BYTES_def)

lemma demo_reread:
  "parse_or_reread demo_session_env demo_path ''session-text'' = Inr demo_session"
  by (simp add: parse_or_reread_def demo_session_env_def with_file_def)

lemma demo_requests: "getq demo_session ''requests'' = JArr [demo_turn1, demo_turn2]"
  by (simp add: demo_session_def)

lemma demo_parse:
  "parseMetadataFast demo_session_env empty_service demo_path ''w1'' 12
     = (Some (JObj demo_summary_props),
        empty_service\<lparr>storagePath := ''home/workspaceStorage''\<rparr>)"
  by code_simp

lemma demo_read_messages: "read_messages demo_session_env demo_path = Inr demo_messages"
  by code_simp

theorem C8_two_tier_message_count_witness:
  "readPrefix demo_session_env demo_path (min 12 (METADATA_READ_BYTES * 4)) = Inr ''session-text''
   \<and> parse_or_reread demo_session_env demo_path ''session-text'' = Inr demo_session
   \<and> getq demo_session ''requests'' = JArr [demo_turn1, demo_turn2]
   \<and> parseMetadataFast demo_session_env empty_service demo_path ''w1'' 12
       = (Some (JObj demo_summary_props),
          empty_service\<lparr>storagePath := ''home/workspaceStorage''\<rparr>)
   \<and> getq (JObj demo_summary_props) ''messageCount''
       = JNum (int (length [demo_turn1, demo_turn2]) * 2)
   \<and> map_of (chatFilePaths demo_indexed) (JStr ''s1'') = Some demo_path \<and> demo_path \<noteq> []
   \<and> read_messages demo_session_env demo_path = Inr demo_messages
   \<and> map_of (cachedChats demo_indexed) (JStr ''s1'') = Some (JObj demo_summary_props)
   \<and> (case loadFullChat demo_session_env demo_indexed (JStr ''s1'') of (c', s2) \<Rightarrow>
         map_of (cachedChats s2) (JStr ''s1'') = Some c'
         \<and> getq c' ''messages'' = JArr demo_messages
         \<and> getq c' ''messageCount'' = JNum (int (length demo_messages)))"
proof -
  have p: "map_of (chatFilePaths demo_indexed) (JStr ''s1'') = Some demo_path"
    by (simp add: demo_indexed_def)
  have q: "demo_path \<noteq> []" by (simp add: demo_path_def)
  have c: "map_of (cachedChats demo_indexed) (JStr ''s1'') = Some (JObj demo_summary_props)"
    by (simp add: demo_indexed_def)
  note T = C8_two_tier_message_count [where env = demo_session_env and filePath = demo_path
      and fileSize = 12 and content = "''session-text''" and data = demo_session
      and rs = "[demo_turn1, demo_turn2]" and s = empty_service and workspaceId = "''w1''"
      and summary = "JObj demo_summary_props"
      and s' = "empty_service\<lparr>storagePath := ''home/workspaceStorage''\<rparr>" and t = demo_indexed
      and chatId = "JStr ''s1''" and path = demo_path and messages = demo_messages
      and kvs = demo_summary_props]
  note A = T [THEN conjunct1, rule_format, OF demo_read_prefix demo_reread demo_requests demo_parse]
  note B = T [THEN conjunct2, rule_format, OF p q demo_read_messages c]
  show ?thesis
    by (intro conjI demo_read_prefix demo_reread demo_requests demo_parse A p q
        demo_read_messages c B)
qed

section \<open>Properties of scanning\<close>

lemma root_of_empty_root: "getCopilotChatStoragePath empty_root_env = ''home/workspaceStorage''"
  by (simp add: getCopilotChatStoragePath_def empty_root_env_def base_env_def)

lemma after_empty_scan_eq:
  "after_empty_scan =
     empty_service\<lparr>storagePath := ''home/workspaceStorage'',
       scanStats := zero_stats\<lparr>chatsFound := 0\<rparr>, lastScanTime := 5002\<rparr>"
  by (simp add: after_empty_scan_def scanAllChatHistories_def scan_run_def root_of_empty_root Let_def
      index_of_def empty_service_def)
     (simp add: empty_root_env_def base_env_def MAX_PARALLEL_READS_def index_of_def
        collect_dirs.simps batches.simps run_batches.simps)

lemma root_of_one_session: "getCopilotChatStoragePath one_session_env = ''home/workspaceStorage''"
  by (simp add: getCopilotChatStoragePath_def one_session_env_def demo_session_env_def
      with_file_def base_env_def)

lemma extract_one_session:
  "parseMetadata_try one_session_env demo_path ''w1'' 12 = Inr (Some (JObj demo_summary_props))"
  by code_simp

lemma discover_one_session:
  "collect_dirs one_session_env ''home/workspaceStorage'' [''w1''] ([], s)
     = (False, [demo_candidate],
        s\<lparr>scanStats := (scanStats s)\<lparr>foldersScanned := foldersScanned (scanStats s) + 1\<rparr>\<rparr>)"
  by (simp add: collect_dirs.simps collect_files.simps
      one_session_env_def demo_session_env_def with_file_def base_env_def Let_def
      ends_with_def demo_path_def demo_stats_def MAX_FILE_SIZE_BYTES_def MAX_FILE_SIZE_MB_def
      demo_candidate_def)

lemma requests_one_session: "has_requests one_session_env demo_path 12"
  by code_simp

lemma start_one_session_miss:
  "fileMetaCache s = [] \<Longrightarrow>
   processFileFast_start one_session_env s demo_candidate
     = (Pending demo_candidate (Some (JObj demo_summary_props)),
        s\<lparr>storagePath := ''home/workspaceStorage''\<rparr>)"
  by (simp add: processFileFast_start_def cache_hit_def parseMetadataFast_def
      demo_candidate_def demo_stats_def extract_one_session requests_one_session
      root_of_one_session)

lemma scan_one_session_after_empty:
  "fst (scanAllChatHistories one_session_env False after_empty_scan) = [JObj demo_summary_props]"
proof -
  have rd: "readdirSync one_session_env ''home/workspaceStorage'' = Inr [''w1'']"
    and ex: "existsSync one_session_env ''home/workspaceStorage''"
    and nw: "now one_session_env = 6000"
    by (simp_all add: one_session_env_def)
  show ?thesis
    by (simp add: scanAllChatHistories_def scan_run_def after_empty_scan_eq root_of_one_session Let_def rd ex nw
        FRESHNESS_MS_def empty_service_def discover_one_session MAX_PARALLEL_READS_def
        batches.simps run_batches.simps start_all.simps
        process_batch_def start_one_session_miss started_value_def List.map_filter_simps)
qed

lemma first_scan_completes:
  "scan_run one_session_env True empty_service
     = (Completed, [JObj demo_summary_props], after_first_scan)"
proof -
  have rd: "readdirSync one_session_env ''home/workspaceStorage'' = Inr [''w1'']"
    and ex: "existsSync one_session_env ''home/workspaceStorage''"
    and nw: "now_done one_session_env = 6001"
    by (simp_all add: one_session_env_def)
  show ?thesis
    by (simp add: scan_run_def root_of_one_session Let_def rd ex nw
        empty_service_def discover_one_session MAX_PARALLEL_READS_def
        batches.simps run_batches.simps start_all.simps
        process_batch_def start_one_session_miss started_value_def List.map_filter_simps
        resume_def processFileFast_resume_def index_of_def map_set_def)
       (simp add: demo_candidate_def demo_stats_def demo_meta_def after_first_scan_def
        demo_summary_props_def zero_stats_def empty_service_def)
qed

lemma root_of_no_root: "getCopilotChatStoragePath no_root_env = ''home/workspaceStorage''"
  by (simp add: getCopilotChatStoragePath_def no_root_env_def base_env_def)

lemma no_root_scan:
  "scan_run no_root_env False demo_indexed = (NoStorage, [], after_no_root)"
  by (simp add: scan_run_def root_of_no_root Let_def after_no_root_def FRESHNESS_MS_def)
     (simp add: no_root_env_def base_env_def demo_indexed_def empty_service_def)

lemma no_root_rescan:
  "scan_run (no_root_env\<lparr>now := 100002\<rparr>) False after_no_root = (NoStorage, [], after_no_root)"
  by (simp add: scan_run_def Let_def after_no_root_def FRESHNESS_MS_def
      getCopilotChatStoragePath_def)
     (simp add: no_root_env_def base_env_def demo_indexed_def empty_service_def)

lemma empty_scan_completes:
  "scan_run empty_root_env False empty_service = (Completed, [], after_empty_scan)"
  by (simp add: after_empty_scan_eq scan_run_def root_of_empty_root Let_def
      index_of_def empty_service_def)
     (simp add: empty_root_env_def base_env_def MAX_PARALLEL_READS_def index_of_def
        collect_dirs.simps batches.simps run_batches.simps FRESHNESS_MS_def)

lemma root_of_late_vanished: "getCopilotChatStoragePath late_vanished_env = ''home/workspaceStorage''"
  by (simp add: getCopilotChatStoragePath_def late_vanished_env_def vanished_file_env_def
      one_session_env_def demo_session_env_def with_file_def base_env_def)

lemma discover_late_vanished:
  "collect_dirs late_vanished_env ''home/workspaceStorage'' [''w1''] ([], s)
     = (True, [],
        s\<lparr>scanStats := (scanStats s)\<lparr>foldersScanned := foldersScanned (scanStats s) + 1,
                                       skippedLarge := skippedLarge (scanStats s) + 1\<rparr>\<rparr>)"
  by (simp add: collect_dirs.simps collect_files.simps late_vanished_env_def vanished_file_env_def
      one_session_env_def demo_session_env_def with_file_def base_env_def Let_def
      ends_with_def demo_path_def big_path_def big_stats_def
      MAX_FILE_SIZE_BYTES_def MAX_FILE_SIZE_MB_def)

lemma late_aborted_scan:
  "scan_run late_vanished_env False big_indexed
     = (Aborted, [JObj big_summary_props], after_aborted_scan)"
proof -
  have rd: "readdirSync late_vanished_env ''home/workspaceStorage'' = Inr [''w1'']"
    and ex: "existsSync late_vanished_env ''home/workspaceStorage''"
    and nw: "now late_vanished_env = 100000"
    by (simp_all add: late_vanished_env_def vanished_file_env_def one_session_env_def)
  have old: "lastScanTime big_indexed = 0" "\<not> scanInProgress big_indexed"
    by (simp_all add: big_indexed_def empty_service_def)
  show ?thesis
    by (simp add: scan_run_def root_of_late_vanished Let_def rd ex nw old FRESHNESS_MS_def
        discover_late_vanished scan_failed_def count_error_def getAllChats_def)
       (simp add: big_indexed_def empty_service_def after_aborted_scan_def zero_stats_def)
qed

lemma root_of_late_big_file: "getCopilotChatStoragePath late_big_file_env = ''home/workspaceStorage''"
  by (simp add: getCopilotChatStoragePath_def late_big_file_env_def big_file_env_def
      one_session_env_def demo_session_env_def with_file_def base_env_def)

lemma extract_late_big_file:
  "parseMetadata_try late_big_file_env demo_path ''w1'' 12 = Inr (Some (JObj demo_summary_props))"
  by code_simp

lemma requests_late_big_file: "has_requests late_big_file_env demo_path 12"
  by code_simp

lemma discover_late_big_file:
  "collect_dirs late_big_file_env ''home/workspaceStorage'' [''w1''] ([], s)
     = (False, [demo_candidate],
        s\<lparr>scanStats := (scanStats s)\<lparr>foldersScanned := foldersScanned (scanStats s) + 1,
                                       skippedLarge := skippedLarge (scanStats s) + 1\<rparr>\<rparr>)"
  by (simp add: collect_dirs.simps collect_files.simps late_big_file_env_def big_file_env_def
      one_session_env_def demo_session_env_def with_file_def base_env_def Let_def
      ends_with_def demo_path_def big_path_def demo_stats_def big_stats_def
      MAX_FILE_SIZE_BYTES_def MAX_FILE_SIZE_MB_def demo_candidate_def)

lemma start_late_big_file_miss:
  "map_of (fileMetaCache s) demo_path = None \<Longrightarrow>
   processFileFast_start late_big_file_env s demo_candidate
     = (Pending demo_candidate (Some (JObj demo_summary_props)),
        s\<lparr>storagePath := ''home/workspaceStorage''\<rparr>)"
  by (simp add: processFileFast_start_def cache_hit_def parseMetadataFast_def
      demo_candidate_def demo_stats_def extract_late_big_file requests_late_big_file
      root_of_late_big_file)

lemma scan_after_aborted:
  "fst (scanAllChatHistories late_big_file_env False after_aborted_scan)
     = [JObj demo_summary_props]"
proof -
  have rd: "readdirSync late_big_file_env ''home/workspaceStorage'' = Inr [''w1'']"
    and ex: "existsSync late_big_file_env ''home/workspaceStorage''"
    and nw: "now late_big_file_env = 100002"
    by (simp_all add: late_big_file_env_def big_file_env_def one_session_env_def)
  have old: "lastScanTime after_aborted_scan = 0" "\<not> scanInProgress after_aborted_scan"
    and miss: "map_of (fileMetaCache after_aborted_scan) demo_path = None"
    by (simp_all add: after_aborted_scan_def big_indexed_def empty_service_def big_path_def
        demo_path_def)
  show ?thesis
    by (simp add: scanAllChatHistories_def scan_run_def root_of_late_big_file Let_def rd ex nw old
        FRESHNESS_MS_def discover_late_big_file MAX_PARALLEL_READS_def
        batches.simps run_batches.simps start_all.simps
        process_batch_def start_late_big_file_miss miss started_value_def List.map_filter_simps)
qed

text \<open>
  C9, as stated, fails, in three ways.  First, \<open>after_empty_scan\<close> is the state in which
  a scan of a storage root without sessions has run to its end, at time 5002.  A second scan
  request at time 6000, within the window of 30 seconds and without the force flag, still
  walks the file system: a session that has appeared meanwhile is returned, which the current
  snapshot does not hold.  The early return asks for a non-empty Index.  Second, a scan
  request on a machine without a storage root ends at \<open>return []\<close>, which does not
  record the time: with a non-empty Index, the request that follows a millisecond after
  its end is not short-circuited either, and returns the empty list while the snapshot
  holds a summary.  Third, a scan that ends in the \<open>catch\<close> block does not record the
  time either: the request that follows a millisecond after its end walks the file system
  and returns the summary of \<open>s1.json\<close>, while the snapshot holds that of
  \<open>big.json\<close>.
\<close>

theorem C9_rescan_within_window_counterexample:
  "scan_run empty_root_env False empty_service = (Completed, [], after_empty_scan)
   \<and> now one_session_env - now_done empty_root_env < FRESHNESS_MS
   \<and> fst (scanAllChatHistories one_session_env False after_empty_scan)
       \<noteq> getAllChats after_empty_scan
   \<and> scan_run no_root_env False demo_indexed = (NoStorage, [], after_no_root)
   \<and> cachedChats after_no_root \<noteq> []
   \<and> now (no_root_env\<lparr>now := 100002\<rparr>) - now_done no_root_env < FRESHNESS_MS
   \<and> fst (scanAllChatHistories (no_root_env\<lparr>now := 100002\<rparr>) False after_no_root)
       \<noteq> getAllChats after_no_root
   \<and> scan_run late_vanished_env False big_indexed
       = (Aborted, [JObj big_summary_props], after_aborted_scan)
   \<and> cachedChats after_aborted_scan \<noteq> []
   \<and> now late_big_file_env - now_done late_vanished_env < FRESHNESS_MS
   \<and> fst (scanAllChatHistories late_big_file_env False after_aborted_scan)
       \<noteq> getAllChats after_aborted_scan"
  by (simp add: empty_scan_completes no_root_scan scan_one_session_after_empty
        no_root_rescan [THEN arg_cong, of "\<lambda>r. fst (snd r)"]
        scanAllChatHistories_def [of "no_root_env\<lparr>now := 100002\<rparr>"]
        late_aborted_scan scan_after_aborted)
     (simp add: after_empty_scan_eq empty_service_def getAllChats_def FRESHNESS_MS_def
        one_session_env_def empty_root_env_def base_env_def no_root_env_def after_no_root_def
        demo_indexed_def after_aborted_scan_def big_indexed_def late_big_file_env_def
        late_vanished_env_def big_summary_props_def demo_summary_props_def)

text \<open>
  The early return on a fresh Index, and what the end of a pass records.  The first holds in
  every state, also one that an import or a full-content load has changed since the scan.
\<close>

lemma fresh_request_returns_snapshot:
  assumes "now env - lastScanTime s < FRESHNESS_MS" and "cachedChats s \<noteq> []"
  shows "scan_run env False s = (if scanInProgress s then Busy else StillFresh, getAllChats s, s)"
  using assms by (simp add: scan_run_def)

lemma completed_state:
  assumes "scan_run env force s0 = (Completed, chats, s)"
  shows "lastScanTime s = now_done env \<and> cachedChats s = index_of chats"
  using assms
  by (auto simp: scan_run_def Let_def scan_failed_def split: if_splits sum.splits prod.splits bool.splits)

text \<open>
  C9, amended: a scan has run its pass to the end, which is the exit that records the time
  (\<open>Completed\<close>; the scans that end because the storage root is missing or in the
  \<open>catch\<close> block are not meant), and has left the service \<open>s\<close> with a non-empty
  Index.  A scan request without the force flag, less than 30 seconds after the end of that
  scan, returns the current snapshot and leaves the service as it is, whatever the file
  system holds: the outcome is the same in every environment \<open>env'\<close> with the same
  clock, so nothing is read from the file system.
\<close>

theorem C9_fresh_scan_short_circuits:
  assumes "scan_run env0 force s0 = (Completed, chats, s)" and "cachedChats s \<noteq> []"
    and "now env - now_done env0 < FRESHNESS_MS" and "now env' = now env"
  shows "scanAllChatHistories env False s = (getAllChats s, s)
         \<and> scanAllChatHistories env' False s = scanAllChatHistories env False s"
proof -
  from completed_state [OF assms(1)] assms(3,4)
  have "now env - lastScanTime s < FRESHNESS_MS" and "now env' - lastScanTime s < FRESHNESS_MS"
    by simp_all
  from this [THEN fresh_request_returns_snapshot, OF assms(2)]
  show ?thesis by (simp add: scanAllChatHistories_def)
qed

theorem C9_fresh_scan_short_circuits_witness:
  "scan_run one_session_env True empty_service
     = (Completed, [JObj demo_summary_props], after_first_scan)
   \<and> cachedChats after_first_scan \<noteq> []
   \<and> now (one_session_env\<lparr>now := 8000\<rparr>) - now_done one_session_env < FRESHNESS_MS
   \<and> now (empty_root_env\<lparr>now := 8000\<rparr>) = now (one_session_env\<lparr>now := 8000\<rparr>)
   \<and> scanAllChatHistories (one_session_env\<lparr>now := 8000\<rparr>) False after_first_scan
       = (getAllChats after_first_scan, after_first_scan)
   \<and> scanAllChatHistories (empty_root_env\<lparr>now := 8000\<rparr>) False after_first_scan
       = scanAllChatHistories (one_session_env\<lparr>now := 8000\<rparr>) False after_first_scan"
proof -
  have b: "cachedChats after_first_scan \<noteq> []"
    by (simp add: after_first_scan_def)
  have a: "now (one_session_env\<lparr>now := 8000\<rparr>) - now_done one_session_env < FRESHNESS_MS"
    by (simp add: one_session_env_def FRESHNESS_MS_def)
  have c: "now (empty_root_env\<lparr>now := 8000\<rparr>) = now (one_session_env\<lparr>now := 8000\<rparr>)"
    by simp
  note T = C9_fresh_scan_short_circuits [OF first_scan_completes b a c]
  show ?thesis by (intro conjI first_scan_completes b a c T [THEN conjunct1] T [THEN conjunct2])
qed

text \<open>
  C1: one call of \<open>processFileFast\<close> for a candidate file.  When the cache holds an entry
  for the path with the same modification time and the same size (and a summary in it), the
  call returns the stored summary and adds one to \<open>skippedCached\<close>; its outcome is the
  same in every environment, so the file is not read and nothing is extracted, and the cache
  and the error counter stay as they are.  When the cache holds no entry for the path, or an
  entry with another time or another size, the call returns what metadata extraction returns
  for the file, \<open>skippedCached\<close> stays, and a summary so extracted replaces the cache
  entry of the path, with the current time and size.
\<close>

theorem C1_cache_hit_and_miss:
  "(map_of (fileMetaCache s) (c_filePath c) = Some cached \<longrightarrow>
    mtime_m cached = mtimeMs (c_stats c) \<longrightarrow> size_m cached = size_st (c_stats c) \<longrightarrow>
    \<not> nullish (chat_m cached) \<longrightarrow>
      (\<forall>env. processFileFast env s c =
         (Inr (Some (chat_m cached)),
          s\<lparr>scanStats := (scanStats s)\<lparr>skippedCached := skippedCached (scanStats s) + 1\<rparr>,
            chatFilePaths :=
              map_set (chatFilePaths s) (getq (chat_m cached) ''id'') (c_filePath c)\<rparr>)))
   \<and> ((map_of (fileMetaCache t) (c_filePath d) = None
        \<or> (\<exists>old. map_of (fileMetaCache t) (c_filePath d) = Some old
              \<and> (mtime_m old \<noteq> mtimeMs (c_stats d) \<or> size_m old \<noteq> size_st (c_stats d)))) \<longrightarrow>
       (case parseMetadataFast env t (c_filePath d) (c_workspaceId d) (size_st (c_stats d)) of
          (r, t1) \<Rightarrow>
            (case processFileFast env t d of
               (result, t') \<Rightarrow>
                 result = Inr r
                 \<and> skippedCached (scanStats t') = skippedCached (scanStats t)
                 \<and> errors (scanStats t') = errors (scanStats t1)
                 \<and> (\<forall>summary. r = Some summary \<longrightarrow>
                       map_of (fileMetaCache t') (c_filePath d)
                         = Some \<lparr>id_m = getq summary ''id'', filePath_m = c_filePath d,
                                 mtime_m = mtimeMs (c_stats d), size_m = size_st (c_stats d),
                                 chat_m = summary\<rparr>)
                 \<and> (r = None \<longrightarrow> fileMetaCache t' = fileMetaCache t))))"
proof (intro conjI impI allI)
  fix env
  assume "map_of (fileMetaCache s) (c_filePath c) = Some cached"
    and "mtime_m cached = mtimeMs (c_stats c)" and "size_m cached = size_st (c_stats c)"
    and "\<not> nullish (chat_m cached)"
  then show "processFileFast env s c =
         (Inr (Some (chat_m cached)),
          s\<lparr>scanStats := (scanStats s)\<lparr>skippedCached := skippedCached (scanStats s) + 1\<rparr>,
            chatFilePaths :=
              map_set (chatFilePaths s) (getq (chat_m cached) ''id'') (c_filePath c)\<rparr>)"
    by (simp add: processFileFast_def processFileFast_start_def cache_hit_def get_def Let_def
        started_value_def resume_def)
next
  assume "map_of (fileMetaCache t) (c_filePath d) = None
        \<or> (\<exists>old. map_of (fileMetaCache t) (c_filePath d) = Some old
              \<and> (mtime_m old \<noteq> mtimeMs (c_stats d) \<or> size_m old \<noteq> size_st (c_stats d)))"
  then have miss: "cache_hit t d = None"
    by (auto simp: cache_hit_def)
  show "case parseMetadataFast env t (c_filePath d) (c_workspaceId d) (size_st (c_stats d)) of
          (r, t1) \<Rightarrow>
            (case processFileFast env t d of
               (result, t') \<Rightarrow>
                 result = Inr r
                 \<and> skippedCached (scanStats t') = skippedCached (scanStats t)
                 \<and> errors (scanStats t') = errors (scanStats t1)
                 \<and> (\<forall>summary. r = Some summary \<longrightarrow>
                       map_of (fileMetaCache t') (c_filePath d)
                         = Some \<lparr>id_m = getq summary ''id'', filePath_m = c_filePath d,
                                 mtime_m = mtimeMs (c_stats d), size_m = size_st (c_stats d),
                                 chat_m = summary\<rparr>)
                 \<and> (r = None \<longrightarrow> fileMetaCache t' = fileMetaCache t))"
    using miss
    by (auto simp: processFileFast_def processFileFast_start_def parseMetadataFast_def
        started_value_def resume_def processFileFast_resume_def count_error_def map_set_def
        update_conv' split: sum.splits option.splits)
qed

theorem C1_cache_hit_and_miss_witness:
  "map_of (fileMetaCache demo_cached) (c_filePath demo_candidate) = Some demo_meta
   \<and> mtime_m demo_meta = mtimeMs (c_stats demo_candidate)
   \<and> size_m demo_meta = size_st (c_stats demo_candidate)
   \<and> \<not> nullish (chat_m demo_meta)
   \<and> (\<forall>env. processFileFast env demo_cached demo_candidate =
         (Inr (Some (chat_m demo_meta)),
          demo_cached\<lparr>scanStats := (scanStats demo_cached)
                          \<lparr>skippedCached := skippedCached (scanStats demo_cached) + 1\<rparr>,
            chatFilePaths :=
              map_set (chatFilePaths demo_cached) (getq (chat_m demo_meta) ''id'')
                (c_filePath demo_candidate)\<rparr>))
   \<and> (map_of (fileMetaCache demo_indexed) (c_filePath demo_candidate) = None
        \<or> (\<exists>old. map_of (fileMetaCache demo_indexed) (c_filePath demo_candidate) = Some old
              \<and> (mtime_m old \<noteq> mtimeMs (c_stats demo_candidate)
                  \<or> size_m old \<noteq> size_st (c_stats demo_candidate))))
   \<and> (case parseMetadataFast one_session_env demo_indexed (c_filePath demo_candidate)
              (c_workspaceId demo_candidate) (size_st (c_stats demo_candidate)) of
          (r, t1) \<Rightarrow>
            (case processFileFast one_session_env demo_indexed demo_candidate of
               (result, t') \<Rightarrow>
                 result = Inr r
                 \<and> skippedCached (scanStats t') = skippedCached (scanStats demo_indexed)
                 \<and> errors (scanStats t') = errors (scanStats t1)
                 \<and> (\<forall>summary. r = Some summary \<longrightarrow>
                       map_of (fileMetaCache t') (c_filePath demo_candidate)
                         = Some \<lparr>id_m = getq summary ''id'',
                                 filePath_m = c_filePath demo_candidate,
                                 mtime_m = mtimeMs (c_stats demo_candidate),
                                 size_m = size_st (c_stats demo_candidate),
                                 chat_m = summary\<rparr>)
                 \<and> (r = None \<longrightarrow> fileMetaCache t' = fileMetaCache demo_indexed)))"
proof -
  have h1: "map_of (fileMetaCache demo_cached) (c_filePath demo_candidate) = Some demo_meta"
    by (simp add: demo_cached_def demo_candidate_def)
  have h2: "mtime_m demo_meta = mtimeMs (c_stats demo_candidate)"
    by (simp add: demo_meta_def demo_candidate_def demo_stats_def)
  have h3: "size_m demo_meta = size_st (c_stats demo_candidate)"
    by (simp add: demo_meta_def demo_candidate_def demo_stats_def)
  have h4: "\<not> nullish (chat_m demo_meta)"
    by (simp add: demo_meta_def nullish_def)
  have m: "map_of (fileMetaCache demo_indexed) (c_filePath demo_candidate) = None
        \<or> (\<exists>old. map_of (fileMetaCache demo_indexed) (c_filePath demo_candidate) = Some old
              \<and> (mtime_m old \<noteq> mtimeMs (c_stats demo_candidate)
                  \<or> size_m old \<noteq> size_st (c_stats demo_candidate)))"
    by (simp add: demo_indexed_def empty_service_def)
  note T = C1_cache_hit_and_miss [where s = demo_cached and c = demo_candidate
      and cached = demo_meta and t = demo_indexed and d = demo_candidate
      and env = one_session_env]
  note A = T [THEN conjunct1, rule_format, OF h1 h2 h3 h4]
  note B = T [THEN conjunct2, rule_format, OF m]
  show ?thesis
    apply (intro conjI h1 h2 h3 h4 m)
     apply (rule allI, rule A)
    apply (rule B)
    done
qed

subsection \<open>The calls of one batch\<close>

text \<open>
  Within a scan the calls of a batch are started one after the other from the state \<open>s\<close>.
  Starting them leaves the cache as it is, so every candidate of the batch is checked against
  the cache of \<open>s\<close>: \<open>skippedCached\<close> grows by the number of candidates with a valid
  entry, and each of them resolves to the stored summary.
\<close>

lemma start_all_cache:
  "start_all env cs s = (sts, s1) \<Longrightarrow>
     fileMetaCache s1 = fileMetaCache s \<and> length sts = length cs
     \<and> skippedCached (scanStats s1) =
         skippedCached (scanStats s) + length (filter (\<lambda>c. cache_hit s c \<noteq> None) cs)"
proof (induction cs arbitrary: s sts s1)
  case Nil
  then show ?case by (simp add: start_all.simps)
next
  case (Cons c cs)
  obtain st sa where a: "processFileFast_start env s c = (st, sa)"
    by (cases "processFileFast_start env s c") auto
  obtain sts' sb where b: "start_all env cs sa = (sts', sb)"
    by (cases "start_all env cs sa") auto
  from Cons.prems a b have eq: "sts = st # sts'" "s1 = sb"
    by (simp_all add: start_all.simps)
  from a have k: "fileMetaCache sa = fileMetaCache s"
    and n: "skippedCached (scanStats sa) =
              skippedCached (scanStats s) + (if cache_hit s c \<noteq> None then 1 else 0)"
    by (auto simp: processFileFast_start_def parseMetadataFast_def count_error_def Let_def
        split: option.splits sum.splits)
  from k have h: "cache_hit sa = cache_hit s" by (simp add: cache_hit_def fun_eq_iff)
  from Cons.IH [OF b] eq k n h show ?case by simp
qed

lemma start_all_hits:
  "start_all env cs s = (sts, s1) \<Longrightarrow> k < length cs \<Longrightarrow>
   cache_hit s (cs ! k) = Some cached \<Longrightarrow> \<not> nullish (chat_m cached) \<Longrightarrow>
     sts ! k = Hit (chat_m cached)"
proof (induction cs arbitrary: s sts s1 k)
  case Nil
  then show ?case by simp
next
  case (Cons c cs)
  obtain st sa where a: "processFileFast_start env s c = (st, sa)"
    by (cases "processFileFast_start env s c") auto
  obtain sts' sb where b: "start_all env cs sa = (sts', sb)"
    by (cases "start_all env cs sa") auto
  from Cons.prems(1) a b have eq: "sts = st # sts'" "s1 = sb"
    by (simp_all add: start_all.simps)
  from a have "fileMetaCache sa = fileMetaCache s"
    by (auto simp: processFileFast_start_def parseMetadataFast_def count_error_def Let_def
        split: option.splits sum.splits)
  then have h: "cache_hit sa = cache_hit s" by (simp add: cache_hit_def fun_eq_iff)
  show ?case
  proof (cases k)
    case 0
    with Cons.prems a eq show ?thesis
      by (simp add: processFileFast_start_def get_def Let_def)
  next
    case (Suc j)
    with Cons.prems h have "j < length cs" "cache_hit sa (cs ! j) = Some cached" by simp_all
    from Cons.IH [OF b this Cons.prems(4)] Suc eq show ?thesis by simp
  qed
qed

subsection \<open>Files above the size ceiling\<close>

lemma set_map_filter: "set (List.map_filter g xs) = {y. \<exists>x\<in>set xs. g x = Some y}"
  by (induction xs) (auto split: option.splits)

lemma collect_files_listing:
  "collect_files env csp ws fs (acc, s) = (False, acc', s') \<Longrightarrow>
     map c_filePath acc' = map c_filePath acc @ filter (\<lambda>p. \<not> too_large env p) (json_paths env csp fs)
     \<and> skippedLarge (scanStats s') =
         skippedLarge (scanStats s) + length (filter (too_large env) (json_paths env csp fs))"
proof (induction fs arbitrary: acc s)
  case Nil
  then show ?case by (simp add: collect_files.simps json_paths_def)
next
  case (Cons f fs)
  show ?case
  proof (cases "ends_with f ''.json''")
    case False
    with Cons.prems have "collect_files env csp ws fs (acc, s) = (False, acc', s')"
      by (simp add: collect_files.simps)
    from Cons.IH [OF this] False show ?thesis by (simp add: json_paths_def)
  next
    case True
    show ?thesis
    proof (cases "statSync env (path_join env [csp, f])")
      case (Inl e)
      with Cons.prems True show ?thesis by (simp add: collect_files.simps)
    next
      case (Inr st)
      show ?thesis
      proof (cases "size_st st > MAX_FILE_SIZE_BYTES")
        case large: True
        with Cons.prems True Inr have "collect_files env csp ws fs
            (acc, s\<lparr>scanStats := (scanStats s)\<lparr>skippedLarge := skippedLarge (scanStats s) + 1\<rparr>\<rparr>)
              = (False, acc', s')"
          by (simp add: collect_files.simps)
        from Cons.IH [OF this] True Inr large show ?thesis
          by (simp add: json_paths_def too_large_def)
      next
        case small: False
        with Cons.prems True Inr have "collect_files env csp ws fs
            (acc @ [\<lparr>c_filePath = path_join env [csp, f], c_workspaceId = ws, c_stats = st\<rparr>], s)
              = (False, acc', s')"
          by (simp add: collect_files.simps)
        from Cons.IH [OF this] True Inr small show ?thesis
          by (simp add: json_paths_def too_large_def)
      qed
    qed
  qed
qed

lemma collect_files_keeps:
  "collect_files env csp ws fs (acc, s) = (b, acc', s') \<Longrightarrow>
   \<forall>c\<in>set acc. within_ceiling env c \<Longrightarrow>
     (\<forall>c\<in>set acc'. within_ceiling env c)
     \<and> chatFilePaths s' = chatFilePaths s \<and> fileMetaCache s' = fileMetaCache s
     \<and> cachedChats s' = cachedChats s"
proof (induction fs arbitrary: acc s)
  case Nil
  then show ?case by (simp add: collect_files.simps)
next
  case (Cons f fs)
  show ?case
  proof (cases "ends_with f ''.json''")
    case False
    with Cons.prems have "collect_files env csp ws fs (acc, s) = (b, acc', s')"
      by (simp add: collect_files.simps)
    from Cons.IH [OF this Cons.prems(2)] show ?thesis .
  next
    case True
    show ?thesis
    proof (cases "statSync env (path_join env [csp, f])")
      case (Inl e)
      with Cons.prems True show ?thesis by (simp add: collect_files.simps)
    next
      case (Inr st)
      show ?thesis
      proof (cases "size_st st > MAX_FILE_SIZE_BYTES")
        case large: True
        with Cons.prems True Inr have "collect_files env csp ws fs
            (acc, s\<lparr>scanStats := (scanStats s)\<lparr>skippedLarge := skippedLarge (scanStats s) + 1\<rparr>\<rparr>)
              = (b, acc', s')"
          by (simp add: collect_files.simps)
        from Cons.IH [OF this Cons.prems(2)] show ?thesis by simp
      next
        case small: False
        let ?c = "\<lparr>c_filePath = path_join env [csp, f], c_workspaceId = ws, c_stats = st\<rparr>"
        from Cons.prems True Inr small have run: "collect_files env csp ws fs (acc @ [?c], s)
              = (b, acc', s')"
          by (simp add: collect_files.simps)
        have "\<forall>c\<in>set (acc @ [?c]). within_ceiling env c"
          using Cons.prems(2) Inr small by (simp add: within_ceiling_def)
        from Cons.IH [OF run this] show ?thesis .
      qed
    qed
  qed
qed


lemma collect_dirs_listing:
  "collect_dirs env rootPath dirs (acc, s) = (False, acc', s') \<Longrightarrow>
     map c_filePath acc' = map c_filePath acc @ filter (\<lambda>p. \<not> too_large env p) (listed env rootPath dirs)
     \<and> skippedLarge (scanStats s') =
         skippedLarge (scanStats s) + length (filter (too_large env) (listed env rootPath dirs))"
proof (induction dirs arbitrary: acc s)
  case Nil
  then show ?case by (simp add: collect_dirs.simps listed_def)
next
  case (Cons d dirs)
  let ?csp = "path_join env [rootPath, d, ''chatSessions'']"
  show ?case
  proof (cases "existsSync env ?csp")
    case False
    with Cons.prems have "collect_dirs env rootPath dirs (acc, s) = (False, acc', s')"
      by (simp add: collect_dirs.simps)
    from Cons.IH [OF this] False show ?thesis by (simp add: listed_def)
  next
    case True
    let ?s1 = "s\<lparr>scanStats := (scanStats s)\<lparr>foldersScanned := foldersScanned (scanStats s) + 1\<rparr>\<rparr>"
    show ?thesis
    proof (cases "readdirSync env ?csp")
      case (Inl e)
      with Cons.prems True show ?thesis by (simp add: collect_dirs.simps Let_def)
    next
      case (Inr fs)
      obtain b acc1 s2 where cf: "collect_files env ?csp d fs (acc, ?s1) = (b, acc1, s2)"
        by (cases "collect_files env ?csp d fs (acc, ?s1)") auto
      with Cons.prems True Inr have b: "\<not> b"
        and rest: "collect_dirs env rootPath dirs (acc1, s2) = (False, acc', s')"
        by (auto simp: collect_dirs.simps Let_def split: if_splits bool.splits)
      from cf b have cf': "collect_files env ?csp d fs (acc, ?s1) = (False, acc1, s2)" by simp
      from collect_files_listing [OF cf'] Cons.IH [OF rest] True Inr
      show ?thesis by (simp add: listed_def)
    qed
  qed
qed

lemma collect_dirs_keeps:
  "collect_dirs env rootPath dirs (acc, s) = (b, acc', s') \<Longrightarrow>
   \<forall>c\<in>set acc. within_ceiling env c \<Longrightarrow>
     (\<forall>c\<in>set acc'. within_ceiling env c)
     \<and> chatFilePaths s' = chatFilePaths s \<and> fileMetaCache s' = fileMetaCache s
     \<and> cachedChats s' = cachedChats s"
proof (induction dirs arbitrary: acc s)
  case Nil
  then show ?case by (simp add: collect_dirs.simps)
next
  case (Cons d dirs)
  let ?csp = "path_join env [rootPath, d, ''chatSessions'']"
  show ?case
  proof (cases "existsSync env ?csp")
    case False
    with Cons.prems have "collect_dirs env rootPath dirs (acc, s) = (b, acc', s')"
      by (simp add: collect_dirs.simps)
    from Cons.IH [OF this Cons.prems(2)] show ?thesis .
  next
    case True
    let ?s1 = "s\<lparr>scanStats := (scanStats s)\<lparr>foldersScanned := foldersScanned (scanStats s) + 1\<rparr>\<rparr>"
    show ?thesis
    proof (cases "readdirSync env ?csp")
      case (Inl e)
      with Cons.prems True show ?thesis by (auto simp: collect_dirs.simps Let_def)
    next
      case (Inr fs)
      obtain b1 acc1 s2 where cf: "collect_files env ?csp d fs (acc, ?s1) = (b1, acc1, s2)"
        by (cases "collect_files env ?csp d fs (acc, ?s1)") auto
      note k = collect_files_keeps [OF cf Cons.prems(2)]
      show ?thesis
      proof (cases b1)
        case True
        with Cons.prems \<open>existsSync env ?csp\<close> Inr cf have "acc' = acc1" "s' = s2"
          by (auto simp: collect_dirs.simps Let_def split: bool.splits)
        with k show ?thesis by simp
      next
        case False
        with Cons.prems \<open>existsSync env ?csp\<close> Inr cf
        have rest: "collect_dirs env rootPath dirs (acc1, s2) = (b, acc', s')"
          by (auto simp: collect_dirs.simps Let_def split: bool.splits)
        from k have "\<forall>c\<in>set acc1. within_ceiling env c" by simp
        from Cons.IH [OF rest this] k show ?thesis by simp
      qed
    qed
  qed
qed

lemma batches_subset: "b \<in> set (batches n xs) \<Longrightarrow> set b \<subseteq> set xs"
proof (induction n xs rule: batches.induct)
  case (1 n)
  then show ?case by (simp add: batches.simps)
next
  case (2 n x xs)
  from "2.prems" have "b = take n (x # xs) \<or> b \<in> set (batches n (drop (n - 1) xs))"
    by (simp add: batches.simps)
  then show ?case
  proof
    assume "b = take n (x # xs)"
    then show ?thesis by (meson set_take_subset)
  next
    assume "b \<in> set (batches n (drop (n - 1) xs))"
    from "2.IH" [OF this] have "set b \<subseteq> set (drop (n - 1) xs)" .
    also have "\<dots> \<subseteq> set xs" by (rule set_drop_subset)
    finally show ?thesis by auto
  qed
qed


lemma set_map_set: "(k', v') \<in> set (map_set m k v) \<Longrightarrow> (k', v') \<in> set m \<or> (k' = k \<and> v' = v)"
  unfolding map_set_def by (induction m) (auto split: if_splits)

lemma within_ceiling_small: "within_ceiling env c \<Longrightarrow> small_path env (c_filePath c)"
  by (simp add: within_ceiling_def small_path_def)

lemma start_inv:
  assumes c: "within_ceiling env c" and inv: "scan_inv env t s"
    and run: "processFileFast_start env s c = (st, s1)"
  shows "scan_inv env t s1 \<and> ok_started env t st"
proof (cases "cache_hit s c")
  case None
  obtain r s' where p: "parseMetadataFast env s (c_filePath c) (c_workspaceId c) (size_st (c_stats c)) = (r, s')"
    by (cases "parseMetadataFast env s (c_filePath c) (c_workspaceId c) (size_st (c_stats c))") auto
  with run None have st: "st = Pending c r" and s1: "s1 = s'"
    by (simp_all add: processFileFast_start_def)
  from p have keep: "chatFilePaths s' = chatFilePaths s" "fileMetaCache s' = fileMetaCache s"
      "cachedChats s' = cachedChats s"
    and r: "\<forall>summary. r = Some summary \<longrightarrow>
        parseMetadata_try env (c_filePath c) (c_workspaceId c) (size_st (c_stats c)) = Inr (Some summary)"
    by (auto simp: parseMetadataFast_def count_error_def Let_def split: sum.splits if_splits)
  from inv keep have "scan_inv env t s'" by (simp add: scan_inv_def)
  with st s1 c r show ?thesis by (simp add: ok_started_def)
next
  case (Some cached)
  then have "map_of (fileMetaCache s) (c_filePath c) = Some cached"
    by (auto simp: cache_hit_def split: option.splits if_splits)
  then have mem: "(c_filePath c, cached) \<in> set (fileMetaCache s)" by (rule map_of_SomeD)
  have src: "from_small_file env t (chat_m cached)"
  proof -
    from inv mem have "(c_filePath c, cached) \<in> set (fileMetaCache t)
        \<or> from_small_file env t (chat_m cached)"
      by (auto simp: scan_inv_def)
    then show ?thesis
    proof
      assume "(c_filePath c, cached) \<in> set (fileMetaCache t)"
      with c show ?thesis unfolding from_small_file_def by blast
    qed
  qed
  let ?s1 = "s\<lparr>scanStats := (scanStats s)\<lparr>skippedCached := skippedCached (scanStats s) + 1\<rparr>\<rparr>"
  have inv1: "scan_inv env t ?s1" using inv by (simp add: scan_inv_def)
  show ?thesis
  proof (cases "get (chat_m cached) ''id''")
    case (Inl e)
    with run Some have "st = Threw" "s1 = ?s1"
      by (simp_all add: processFileFast_start_def Let_def)
    with inv1 show ?thesis by (simp add: ok_started_def)
  next
    case (Inr cid)
    with run Some have st: "st = Hit (chat_m cached)"
      and s1: "s1 = ?s1\<lparr>chatFilePaths := map_set (chatFilePaths ?s1) cid (c_filePath c)\<rparr>"
      by (simp_all add: processFileFast_start_def Let_def)
    have "scan_inv env t s1"
      unfolding s1 using inv within_ceiling_small [OF c]
      by (auto simp: scan_inv_def dest!: set_map_set)
    with st src show ?thesis by (simp add: ok_started_def)
  qed
qed

lemma resume_inv:
  assumes ok: "ok_started env t st" and inv: "scan_inv env t s"
  shows "scan_inv env t (resume s st)"
proof (cases st)
  case (Pending c r)
  show ?thesis
  proof (cases r)
    case None
    with Pending inv show ?thesis by (simp add: resume_def processFileFast_resume_def)
  next
    case (Some summary)
    from ok Pending Some have c: "within_ceiling env c"
      and src: "parseMetadata_try env (c_filePath c) (c_workspaceId c) (size_st (c_stats c))
                  = Inr (Some summary)"
      by (simp_all add: ok_started_def)
    from c src have "from_small_file env t summary" unfolding from_small_file_def by blast
    with inv within_ceiling_small [OF c] Pending Some show ?thesis
      by (auto simp: resume_def processFileFast_resume_def scan_inv_def dest!: set_map_set)
  qed
qed (use inv in \<open>simp_all add: resume_def\<close>)

lemma start_all_inv:
  "\<forall>c\<in>set cs. within_ceiling env c \<Longrightarrow> scan_inv env t s \<Longrightarrow>
   start_all env cs s = (sts, s1) \<Longrightarrow>
     scan_inv env t s1 \<and> (\<forall>st\<in>set sts. ok_started env t st)"
proof (induction cs arbitrary: s sts s1)
  case Nil
  then show ?case by (simp add: start_all.simps)
next
  case (Cons c cs)
  obtain st sa where a: "processFileFast_start env s c = (st, sa)"
    by (cases "processFileFast_start env s c") auto
  obtain sts' sb where b: "start_all env cs sa = (sts', sb)"
    by (cases "start_all env cs sa") auto
  from Cons.prems(3) a b have eq: "sts = st # sts'" "s1 = sb"
    by (simp_all add: start_all.simps)
  from Cons.prems(1) have c: "within_ceiling env c" and cs: "\<forall>c\<in>set cs. within_ceiling env c"
    by simp_all
  from start_inv [OF c Cons.prems(2) a] have "scan_inv env t sa" and "ok_started env t st"
    by simp_all
  with Cons.IH [OF cs _ b] eq show ?case by simp
qed

lemma foldl_resume_inv:
  "\<forall>st\<in>set sts. ok_started env t st \<Longrightarrow> scan_inv env t s \<Longrightarrow>
     scan_inv env t (foldl resume s sts)"
  by (induction sts arbitrary: s) (simp_all add: resume_inv)

lemma ok_started_value:
  "ok_started env t st \<Longrightarrow> started_value st = Some v \<Longrightarrow> from_small_file env t v"
  by (cases st) (auto simp: ok_started_def started_value_def from_small_file_def)

lemma run_batches_inv:
  "\<forall>b\<in>set bs. \<forall>c\<in>set b. within_ceiling env c \<Longrightarrow> scan_inv env t s \<Longrightarrow>
   \<forall>v\<in>set chats. from_small_file env t v \<Longrightarrow>
   run_batches env bs (chats, s) = (thrown, chats', s') \<Longrightarrow>
     scan_inv env t s' \<and> (\<forall>v\<in>set chats'. from_small_file env t v)"
proof (induction bs arbitrary: chats s)
  case Nil
  then show ?case by (simp add: run_batches.simps)
next
  case (Cons b bs)
  obtain sts sa where a: "start_all env b s = (sts, sa)" by (cases "start_all env b s") auto
  from Cons.prems(1) have b: "\<forall>c\<in>set b. within_ceiling env c"
    and bs: "\<forall>b\<in>set bs. \<forall>c\<in>set b. within_ceiling env c" by simp_all
  from start_all_inv [OF b Cons.prems(2) a]
  have inva: "scan_inv env t sa" and ok: "\<forall>st\<in>set sts. ok_started env t st" by simp_all
  let ?s1 = "foldl resume sa sts"
  have inv1: "scan_inv env t ?s1" by (rule foldl_resume_inv [OF ok inva])
  have pb: "process_batch env b s = (sts, ?s1)" using a by (simp add: process_batch_def)
  show ?case
  proof (cases "Threw \<in> set sts")
    case True
    with Cons.prems(4) pb have "chats' = chats" "s' = ?s1"
      by (simp_all add: run_batches.simps)
    with inv1 Cons.prems(3) show ?thesis by simp
  next
    case False
    with Cons.prems(4) pb
    have rest: "run_batches env bs (chats @ List.map_filter started_value sts, ?s1)
                  = (thrown, chats', s')"
      by (simp add: run_batches.simps)
    have "\<forall>v\<in>set (chats @ List.map_filter started_value sts). from_small_file env t v"
      using Cons.prems(3) ok by (auto simp: set_map_filter dest: ok_started_value)
    from Cons.IH [OF bs inv1 this rest] show ?thesis .
  qed
qed

lemma index_of_values: "set (getAllChats (s\<lparr>cachedChats := index_of chats\<rparr>)) \<subseteq> set chats"
proof -
  have "snd ` set (foldl (\<lambda>m c. map_set m (getq c ''id'') c) m0 chats) \<subseteq> snd ` set m0 \<union> set chats"
    for m0
  proof (induction chats arbitrary: m0)
    case Nil
    then show ?case by simp
  next
    case (Cons c chats)
    have "snd ` set (map_set m0 (getq c ''id'') c) \<subseteq> snd ` set m0 \<union> {c}"
      by (auto dest!: set_map_set)
    with Cons.IH [of "map_set m0 (getq c ''id'') c"] show ?case by auto
  qed
  from this [of "[]"] show ?thesis by (simp add: getAllChats_def index_of_def)
qed


text \<open>The counter of oversize files is left alone once the discovery is over.\<close>

lemma start_large:
  "processFileFast_start env s c = (st, s1) \<Longrightarrow>
     skippedLarge (scanStats s1) = skippedLarge (scanStats s)"
  by (auto simp: processFileFast_start_def parseMetadataFast_def count_error_def Let_def
      split: option.splits sum.splits if_splits)

lemma resume_large: "skippedLarge (scanStats (resume s st)) = skippedLarge (scanStats s)"
  by (cases st) (auto simp: resume_def processFileFast_resume_def split: option.splits)

lemma start_all_large:
  "start_all env cs s = (sts, s1) \<Longrightarrow> skippedLarge (scanStats s1) = skippedLarge (scanStats s)"
proof (induction cs arbitrary: s sts s1)
  case Nil
  then show ?case by (simp add: start_all.simps)
next
  case (Cons c cs)
  obtain st sa where a: "processFileFast_start env s c = (st, sa)"
    by (cases "processFileFast_start env s c") auto
  obtain sts' sb where b: "start_all env cs sa = (sts', sb)"
    by (cases "start_all env cs sa") auto
  from Cons.prems a b have "s1 = sb" by (simp add: start_all.simps)
  with Cons.IH [OF b] start_large [OF a] show ?case by simp
qed

lemma foldl_resume_large:
  "skippedLarge (scanStats (foldl resume s sts)) = skippedLarge (scanStats s)"
  by (induction sts arbitrary: s) (simp_all add: resume_large)

lemma run_batches_large:
  "run_batches env bs (chats, s) = (thrown, chats', s') \<Longrightarrow>
     skippedLarge (scanStats s') = skippedLarge (scanStats s)"
proof (induction bs arbitrary: chats s)
  case Nil
  then show ?case by (simp add: run_batches.simps)
next
  case (Cons b bs)
  obtain sts sa where a: "start_all env b s = (sts, sa)" by (cases "start_all env b s") auto
  let ?s1 = "foldl resume sa sts"
  have pb: "process_batch env b s = (sts, ?s1)" using a by (simp add: process_batch_def)
  have k: "skippedLarge (scanStats ?s1) = skippedLarge (scanStats s)"
    using start_all_large [OF a] by (simp add: foldl_resume_large)
  show ?case
  proof (cases "Threw \<in> set sts")
    case True
    with Cons.prems pb have "s' = ?s1" by (simp add: run_batches.simps)
    with k show ?thesis by simp
  next
    case False
    with Cons.prems pb
    have "run_batches env bs (chats @ List.map_filter started_value sts, ?s1)
                  = (thrown, chats', s')"
      by (simp add: run_batches.simps)
    from Cons.IH [OF this] k show ?thesis by simp
  qed
qed

text \<open>
  What a scan request does, by the exit it takes.  Whatever the exit, an entry of the two
  tables that was not there before is for a file within the ceiling.  When the pass runs to
  its end, every summary returned comes from a file within the ceiling, the Index holds
  returned summaries only, and \<open>skippedLarge\<close> is the number of listed session files
  that are too large.  When the pass is aborted, the snapshot of the Index is returned and
  the Index stays as it was.
\<close>

lemma scan_outcome:
  assumes run: "scan_run env force t = (e, chats, t')"
  shows "(\<forall>i p. (i, p) \<in> set (chatFilePaths t') \<longrightarrow>
            (i, p) \<in> set (chatFilePaths t) \<or> small_path env p)
     \<and> (\<forall>p m. (p, m) \<in> set (fileMetaCache t') \<longrightarrow>
            (p, m) \<in> set (fileMetaCache t) \<or> small_path env p)
     \<and> (e = Completed \<longrightarrow>
          (\<forall>v\<in>set chats. from_small_file env t v)
          \<and> set (getAllChats t') \<subseteq> set chats
          \<and> (\<exists>dirs. readdirSync env (getCopilotChatStoragePath env) = Inr dirs
                \<and> skippedLarge (scanStats t') =
                    length (filter (too_large env)
                              (listed env (getCopilotChatStoragePath env) dirs))))
     \<and> (e = Aborted \<longrightarrow> chats = getAllChats t \<and> cachedChats t' = cachedChats t)"
    (is "?G e chats t'")
proof -
  let ?root = "getCopilotChatStoragePath env"
  let ?s1 = "t\<lparr>storagePath := ?root, scanStats := zero_stats\<rparr>"
  have inv1: "scan_inv env t ?s1" by (simp add: scan_inv_def)
  have failed: "?G e chats t'" if "(e, chats, t') = (Aborted, scan_failed s)" and "scan_inv env t s" for s
    using that by (auto simp: scan_failed_def count_error_def scan_inv_def getAllChats_def)
  show ?thesis
  proof (cases "scanInProgress t \<or> (\<not> force \<and> now env - lastScanTime t < FRESHNESS_MS
                  \<and> length (cachedChats t) > 0)")
    case True
    with run have "chats = getAllChats t" "t' = t" "e \<noteq> Completed" "e \<noteq> Aborted"
      by (auto simp: scan_run_def split: if_splits)
    then show ?thesis by simp
  next
    case False
    note guard = this
    show ?thesis
    proof (cases "existsSync env ?root")
      case False
      with run guard have "chats = []" "t' = ?s1" "e = NoStorage"
        by (auto simp: scan_run_def Let_def split: if_splits)
      then show ?thesis by (simp add: getAllChats_def)
    next
      case True
      note ex = this
      show ?thesis
      proof (cases "readdirSync env ?root")
        case (Inl err)
        with run guard ex have "(e, chats, t') = (Aborted, scan_failed ?s1)"
          by (auto simp: scan_run_def Let_def split: if_splits)
        from failed [OF this inv1] show ?thesis .
      next
        case (Inr dirs)
        obtain b files s2 where cd: "collect_dirs env ?root dirs ([], ?s1) = (b, files, s2)"
          by (cases "collect_dirs env ?root dirs ([], ?s1)") auto
        from collect_dirs_keeps [OF cd]
        have files: "\<forall>c\<in>set files. within_ceiling env c"
          and keep: "chatFilePaths s2 = chatFilePaths ?s1" "fileMetaCache s2 = fileMetaCache ?s1"
            "cachedChats s2 = cachedChats ?s1"
          by simp_all
        from inv1 keep have inv2: "scan_inv env t s2" by (simp add: scan_inv_def)
        show ?thesis
        proof (cases b)
          case True
          with run guard ex Inr cd have "(e, chats, t') = (Aborted, scan_failed s2)"
            by (auto simp: scan_run_def Let_def split: if_splits)
          from failed [OF this inv2] show ?thesis .
        next
          case False
          note nb = this
          from cd nb have "collect_dirs env ?root dirs ([], ?s1) = (False, files, s2)" by simp
          from collect_dirs_listing [OF this]
          have large2: "skippedLarge (scanStats s2) =
                          length (filter (too_large env) (listed env ?root dirs))"
            by (simp add: zero_stats_def)
          obtain b3 chats3 s3 where rb:
            "run_batches env (batches MAX_PARALLEL_READS files) ([], s2) = (b3, chats3, s3)"
            by (cases "run_batches env (batches MAX_PARALLEL_READS files) ([], s2)") auto
          have "\<forall>b\<in>set (batches MAX_PARALLEL_READS files). \<forall>c\<in>set b. within_ceiling env c"
            using files batches_subset by blast
          from run_batches_inv [OF this inv2 _ rb]
          have inv3: "scan_inv env t s3" and src: "\<forall>v\<in>set chats3. from_small_file env t v"
            by simp_all
          from run_batches_large [OF rb] large2
          have large3: "skippedLarge (scanStats s3) =
                          length (filter (too_large env) (listed env ?root dirs))"
            by simp
          show ?thesis
          proof (cases b3)
            case True
            with run guard ex Inr cd nb rb have "(e, chats, t') = (Aborted, scan_failed s3)"
              by (auto simp: scan_run_def Let_def split: if_splits)
            from failed [OF this inv3] show ?thesis .
          next
            case False
            with run guard ex Inr cd nb rb have c: "chats = chats3" and e: "e = Completed"
              and t': "t' = s3\<lparr>cachedChats := index_of chats3,
                          scanStats := (scanStats s3)\<lparr>chatsFound := length chats3\<rparr>,
                          lastScanTime := now_done env\<rparr>"
              by (auto simp: scan_run_def Let_def split: if_splits)
            have a: "set (getAllChats t') \<subseteq> set chats3"
              using index_of_values [where s = s3 and chats = chats3] by (simp add: t' getAllChats_def)
            have b: "\<forall>i p. (i, p) \<in> set (chatFilePaths t') \<longrightarrow>
                (i, p) \<in> set (chatFilePaths t) \<or> small_path env p"
              using inv3 by (simp add: t' scan_inv_def)
            have d: "\<forall>p m. (p, m) \<in> set (fileMetaCache t') \<longrightarrow>
                (p, m) \<in> set (fileMetaCache t) \<or> small_path env p"
              using inv3 by (auto simp: t' scan_inv_def)
            have f: "\<exists>dirs. readdirSync env ?root = Inr dirs
                \<and> skippedLarge (scanStats t') =
                    length (filter (too_large env) (listed env ?root dirs))"
              using Inr large3 by (simp add: t')
            from a b d f src show ?thesis unfolding c e by simp
          qed
        qed
      qed
    qed
  qed
qed


lemma root_of_vanished: "getCopilotChatStoragePath vanished_file_env = ''home/workspaceStorage''"
  by (simp add: getCopilotChatStoragePath_def vanished_file_env_def one_session_env_def
      demo_session_env_def with_file_def base_env_def)

lemma root_of_big_file: "getCopilotChatStoragePath big_file_env = ''home/workspaceStorage''"
  by (simp add: getCopilotChatStoragePath_def big_file_env_def one_session_env_def
      demo_session_env_def with_file_def base_env_def)

lemma listed_vanished:
  "listed vanished_file_env ''home/workspaceStorage'' [''w1''] = [big_path, demo_path]"
  by (simp add: listed_def json_paths_def vanished_file_env_def one_session_env_def
      demo_session_env_def with_file_def base_env_def ends_with_def big_path_def demo_path_def)

lemma listed_big_file:
  "listed big_file_env ''home/workspaceStorage'' [''w1''] = [demo_path, big_path]"
  by (simp add: listed_def json_paths_def big_file_env_def one_session_env_def
      demo_session_env_def with_file_def base_env_def ends_with_def big_path_def demo_path_def)

lemma discover_vanished:
  "collect_dirs vanished_file_env ''home/workspaceStorage'' [''w1''] ([], s)
     = (True, [],
        s\<lparr>scanStats := (scanStats s)\<lparr>foldersScanned := foldersScanned (scanStats s) + 1,
                                       skippedLarge := skippedLarge (scanStats s) + 1\<rparr>\<rparr>)"
  by (simp add: collect_dirs.simps collect_files.simps vanished_file_env_def
      one_session_env_def demo_session_env_def with_file_def base_env_def Let_def
      ends_with_def demo_path_def big_path_def big_stats_def
      MAX_FILE_SIZE_BYTES_def MAX_FILE_SIZE_MB_def)

lemma aborted_scan:
  "scan_run vanished_file_env True big_indexed
     = (Aborted, [JObj big_summary_props], after_aborted_scan)"
proof -
  have rd: "readdirSync vanished_file_env ''home/workspaceStorage'' = Inr [''w1'']"
    and ex: "existsSync vanished_file_env ''home/workspaceStorage''"
    by (simp_all add: vanished_file_env_def one_session_env_def)
  show ?thesis
    by (simp add: scan_run_def root_of_vanished Let_def rd ex discover_vanished scan_failed_def
        count_error_def getAllChats_def)
       (simp add: big_indexed_def empty_service_def after_aborted_scan_def zero_stats_def)
qed

lemma no_small_file_vanished: "\<not> within_ceiling vanished_file_env c"
proof
  assume "within_ceiling vanished_file_env c"
  then have a: "statSync vanished_file_env (c_filePath c) = Inr (c_stats c)"
    and b: "size_st (c_stats c) \<le> MAX_FILE_SIZE_BYTES"
    by (simp_all add: within_ceiling_def)
  from a have "c_stats c = big_stats"
    by (auto simp: vanished_file_env_def split: if_splits)
  with b show False
    by (simp add: big_stats_def MAX_FILE_SIZE_BYTES_def MAX_FILE_SIZE_MB_def)
qed

text \<open>
  C2, as stated, fails when the scan is aborted.  \<open>big.json\<close> is listed, has 60 000 000
  bytes and is counted under \<open>skippedLarge\<close>; then \<open>statSync\<close> throws on the next
  file and the \<open>catch\<close> block returns the snapshot of an Index that was not cleared.
  The summary that an earlier scan stored for \<open>big.json\<close> is returned and is still in
  the resulting Index, with its identity-to-path entry, and it comes from no file within the
  ceiling.
\<close>

theorem C2_aborted_scan_keeps_oversize_counterexample:
  "big_path \<in> set (listed vanished_file_env ''home/workspaceStorage'' [''w1''])
   \<and> statSync vanished_file_env big_path = Inr big_stats
   \<and> size_st big_stats > MAX_FILE_SIZE_BYTES
   \<and> map_of (fileMetaCache big_indexed) big_path = Some big_meta
   \<and> chat_m big_meta = JObj big_summary_props
   \<and> scan_run vanished_file_env True big_indexed
       = (Aborted, [JObj big_summary_props], after_aborted_scan)
   \<and> skippedLarge (scanStats after_aborted_scan) = 1
   \<and> cachedChats after_aborted_scan = [(JStr ''big'', JObj big_summary_props)]
   \<and> map_of (chatFilePaths after_aborted_scan) (JStr ''big'') = Some big_path
   \<and> \<not> from_small_file vanished_file_env big_indexed (JObj big_summary_props)"
  by (simp add: listed_vanished aborted_scan from_small_file_def no_small_file_vanished)
     (simp add: vanished_file_env_def big_stats_def MAX_FILE_SIZE_BYTES_def MAX_FILE_SIZE_MB_def
        big_indexed_def big_meta_def after_aborted_scan_def zero_stats_def)

text \<open>
  C2, amended.  Discovery: when the walk over the entries \<open>dirs\<close> of the root completes,
  the candidates are the listed session files that are not too large, in order, each with a
  size within the ceiling, and \<open>skippedLarge\<close> has grown by the number of listed files
  that are too large.  Entries: for a file \<open>p\<close> whose size is above the ceiling, a scan
  request, however it ends, leaves no identity-to-path entry and no cache entry for \<open>p\<close>
  that was not there before, so neither \<open>loadFullChat\<close> nor \<open>deepSearch\<close> is led to
  \<open>p\<close> by an entry of this scan.  A scan that runs to its end: \<open>skippedLarge\<close> is the
  number of listed session files that are too large, and every summary returned, as every
  summary of the resulting Index, comes from a file within the ceiling, so none is produced
  for a file above it.  A scan that is aborted returns the snapshot of the Index and leaves
  the Index as it was.
\<close>

theorem C2_oversize_files_amended:
  "(collect_dirs env rootPath dirs ([], s) = (False, files, s') \<longrightarrow>
      map c_filePath files = filter (\<lambda>p. \<not> too_large env p) (listed env rootPath dirs)
      \<and> (\<forall>c\<in>set files. size_st (c_stats c) \<le> MAX_FILE_SIZE_BYTES)
      \<and> skippedLarge (scanStats s') =
          skippedLarge (scanStats s) + length (filter (too_large env) (listed env rootPath dirs)))
   \<and> (statSync env p = Inr st \<longrightarrow> size_st st > MAX_FILE_SIZE_BYTES \<longrightarrow>
        (case scanAllChatHistories env force t of (chats, t') \<Rightarrow>
           (\<forall>i. (i, p) \<in> set (chatFilePaths t') \<longrightarrow> (i, p) \<in> set (chatFilePaths t))
           \<and> (\<forall>m. (p, m) \<in> set (fileMetaCache t') \<longrightarrow> (p, m) \<in> set (fileMetaCache t))))
   \<and> (scan_run env force t = (Completed, found, t1) \<longrightarrow>
        (\<exists>ds. readdirSync env (getCopilotChatStoragePath env) = Inr ds
           \<and> skippedLarge (scanStats t1) =
               length (filter (too_large env) (listed env (getCopilotChatStoragePath env) ds)))
        \<and> (\<forall>v\<in>set found. from_small_file env t v)
        \<and> (\<forall>v\<in>set (getAllChats t1). from_small_file env t v))
   \<and> (scan_run env2 force2 u = (Aborted, kept, u1) \<longrightarrow>
        kept = getAllChats u \<and> cachedChats u1 = cachedChats u)"
proof (intro conjI impI)
  assume cd: "collect_dirs env rootPath dirs ([], s) = (False, files, s')"
  from collect_dirs_listing [OF cd]
  show "map c_filePath files = filter (\<lambda>p. \<not> too_large env p) (listed env rootPath dirs)"
    and "skippedLarge (scanStats s') =
          skippedLarge (scanStats s) + length (filter (too_large env) (listed env rootPath dirs))"
    by simp_all
  from collect_dirs_keeps [OF cd]
  show "\<forall>c\<in>set files. size_st (c_stats c) \<le> MAX_FILE_SIZE_BYTES"
    by (simp add: within_ceiling_def)
next
  assume st: "statSync env p = Inr st" and large: "size_st st > MAX_FILE_SIZE_BYTES"
  then have p: "\<not> small_path env p" by (simp add: small_path_def)
  obtain e chats t' where run: "scan_run env force t = (e, chats, t')"
    by (cases "scan_run env force t") auto
  from scan_outcome [OF run] p
  show "case scanAllChatHistories env force t of (chats, t') \<Rightarrow>
           (\<forall>i. (i, p) \<in> set (chatFilePaths t') \<longrightarrow> (i, p) \<in> set (chatFilePaths t))
           \<and> (\<forall>m. (p, m) \<in> set (fileMetaCache t') \<longrightarrow> (p, m) \<in> set (fileMetaCache t))"
    unfolding scanAllChatHistories_def run by auto
next
  assume run: "scan_run env force t = (Completed, found, t1)"
  note o = scan_outcome [OF run, THEN conjunct2, THEN conjunct2, THEN conjunct1, rule_format, OF refl]
  from o show "\<exists>ds. readdirSync env (getCopilotChatStoragePath env) = Inr ds
           \<and> skippedLarge (scanStats t1) =
               length (filter (too_large env) (listed env (getCopilotChatStoragePath env) ds))"
    by simp
  from o show "\<forall>v\<in>set found. from_small_file env t v" by simp
  from o show "\<forall>v\<in>set (getAllChats t1). from_small_file env t v" by blast
next
  assume run: "scan_run env2 force2 u = (Aborted, kept, u1)"
  note o = scan_outcome [OF run, THEN conjunct2, THEN conjunct2, THEN conjunct2, rule_format, OF refl]
  from o show "kept = getAllChats u" by simp
  from o show "cachedChats u1 = cachedChats u" by simp
qed

lemma discover_big_file:
  "collect_dirs big_file_env ''home/workspaceStorage'' [''w1''] ([], empty_service)
     = (False, [demo_candidate],
        empty_service\<lparr>scanStats := zero_stats\<lparr>foldersScanned := 1, skippedLarge := 1\<rparr>\<rparr>)"
  by (simp add: collect_dirs.simps collect_files.simps big_file_env_def
      one_session_env_def demo_session_env_def with_file_def base_env_def Let_def
      ends_with_def demo_path_def big_path_def demo_stats_def big_stats_def
      MAX_FILE_SIZE_BYTES_def MAX_FILE_SIZE_MB_def demo_candidate_def empty_service_def
      zero_stats_def)

lemma extract_big_file:
  "parseMetadata_try big_file_env demo_path ''w1'' 12 = Inr (Some (JObj demo_summary_props))"
  by code_simp

lemma requests_big_file: "has_requests big_file_env demo_path 12"
  by code_simp

lemma discover_big_file_any:
  "collect_dirs big_file_env ''home/workspaceStorage'' [''w1''] ([], s)
     = (False, [demo_candidate],
        s\<lparr>scanStats := (scanStats s)\<lparr>foldersScanned := foldersScanned (scanStats s) + 1,
                                       skippedLarge := skippedLarge (scanStats s) + 1\<rparr>\<rparr>)"
  by (simp add: collect_dirs.simps collect_files.simps big_file_env_def
      one_session_env_def demo_session_env_def with_file_def base_env_def Let_def
      ends_with_def demo_path_def big_path_def demo_stats_def big_stats_def
      MAX_FILE_SIZE_BYTES_def MAX_FILE_SIZE_MB_def demo_candidate_def)

lemma start_big_file_miss:
  "map_of (fileMetaCache s) demo_path = None \<Longrightarrow>
   processFileFast_start big_file_env s demo_candidate
     = (Pending demo_candidate (Some (JObj demo_summary_props)),
        s\<lparr>storagePath := ''home/workspaceStorage''\<rparr>)"
  by (simp add: processFileFast_start_def cache_hit_def parseMetadataFast_def
      demo_candidate_def demo_stats_def extract_big_file requests_big_file root_of_big_file)

lemma completed_big_scan:
  "scan_run big_file_env True big_indexed
     = (Completed, [JObj demo_summary_props], after_big_scan)"
proof -
  have rd: "readdirSync big_file_env ''home/workspaceStorage'' = Inr [''w1'']"
    and ex: "existsSync big_file_env ''home/workspaceStorage''"
    and nw: "now_done big_file_env = 6001"
    by (simp_all add: big_file_env_def one_session_env_def)
  have miss: "map_of (fileMetaCache big_indexed) demo_path = None"
    by (simp add: big_indexed_def big_path_def demo_path_def)
  show ?thesis
    by (simp add: scan_run_def root_of_big_file Let_def rd ex nw
        discover_big_file_any MAX_PARALLEL_READS_def
        batches.simps run_batches.simps start_all.simps
        process_batch_def start_big_file_miss miss started_value_def List.map_filter_simps
        resume_def processFileFast_resume_def index_of_def map_set_def)
       (simp add: demo_candidate_def demo_stats_def demo_meta_def after_big_scan_def
        big_indexed_def big_path_def demo_path_def
        demo_summary_props_def zero_stats_def empty_service_def)
qed


theorem C2_oversize_files_amended_witness:
  "collect_dirs big_file_env ''home/workspaceStorage'' [''w1''] ([], empty_service)
     = (False, [demo_candidate],
        empty_service\<lparr>scanStats := zero_stats\<lparr>foldersScanned := 1, skippedLarge := 1\<rparr>\<rparr>)
   \<and> map c_filePath [demo_candidate]
       = filter (\<lambda>p. \<not> too_large big_file_env p)
           (listed big_file_env ''home/workspaceStorage'' [''w1''])
   \<and> size_st (c_stats demo_candidate) \<le> MAX_FILE_SIZE_BYTES
   \<and> skippedLarge (scanStats
         (empty_service\<lparr>scanStats := zero_stats\<lparr>foldersScanned := 1, skippedLarge := 1\<rparr>\<rparr>))
       = skippedLarge (scanStats empty_service)
         + length (filter (too_large big_file_env)
             (listed big_file_env ''home/workspaceStorage'' [''w1'']))
   \<and> statSync big_file_env big_path = Inr big_stats
   \<and> size_st big_stats > MAX_FILE_SIZE_BYTES
   \<and> (case scanAllChatHistories big_file_env True big_indexed of (chats, t') \<Rightarrow>
         (\<forall>i. (i, big_path) \<in> set (chatFilePaths t') \<longrightarrow>
                (i, big_path) \<in> set (chatFilePaths big_indexed))
         \<and> (\<forall>m. (big_path, m) \<in> set (fileMetaCache t') \<longrightarrow>
                (big_path, m) \<in> set (fileMetaCache big_indexed)))
   \<and> scan_run big_file_env True big_indexed
       = (Completed, [JObj demo_summary_props], after_big_scan)
   \<and> skippedLarge (scanStats after_big_scan)
       = length (filter (too_large big_file_env)
           (listed big_file_env ''home/workspaceStorage'' [''w1'']))
   \<and> from_small_file big_file_env big_indexed (JObj demo_summary_props)
   \<and> getAllChats after_big_scan = [JObj demo_summary_props]
   \<and> scan_run vanished_file_env True big_indexed
       = (Aborted, [JObj big_summary_props], after_aborted_scan)
   \<and> [JObj big_summary_props] = getAllChats big_indexed
   \<and> cachedChats after_aborted_scan = cachedChats big_indexed"
proof -
  have st: "statSync big_file_env big_path = Inr big_stats"
    by (simp add: big_file_env_def big_path_def demo_path_def)
  have large: "size_st big_stats > MAX_FILE_SIZE_BYTES"
    by (simp add: big_stats_def MAX_FILE_SIZE_BYTES_def MAX_FILE_SIZE_MB_def)
  have rd: "readdirSync big_file_env ''home/workspaceStorage'' = Inr [''w1'']"
    by (simp add: big_file_env_def)
  have all: "getAllChats after_big_scan = [JObj demo_summary_props]"
    by (simp add: getAllChats_def after_big_scan_def)
  note T = C2_oversize_files_amended [where env = big_file_env
      and rootPath = "''home/workspaceStorage''" and dirs = "[''w1'']" and s = empty_service
      and files = "[demo_candidate]"
      and s' = "empty_service\<lparr>scanStats := zero_stats\<lparr>foldersScanned := 1, skippedLarge := 1\<rparr>\<rparr>"
      and p = big_path and st = big_stats and force = True and t = big_indexed
      and found = "[JObj demo_summary_props]" and ?t1.0 = after_big_scan
      and ?env2.0 = vanished_file_env and ?force2.0 = True and u = big_indexed
      and kept = "[JObj big_summary_props]" and ?u1.0 = after_aborted_scan]
  note A = T [THEN conjunct1, rule_format, OF discover_big_file]
  note B = T [THEN conjunct2, THEN conjunct1, rule_format, OF st large]
  note C = T [THEN conjunct2, THEN conjunct2, THEN conjunct1, rule_format, OF completed_big_scan]
  note D = T [THEN conjunct2, THEN conjunct2, THEN conjunct2, rule_format, OF aborted_scan]
  have A2: "size_st (c_stats demo_candidate) \<le> MAX_FILE_SIZE_BYTES"
    using A [THEN conjunct2, THEN conjunct1] by simp
  have C1: "skippedLarge (scanStats after_big_scan)
       = length (filter (too_large big_file_env)
           (listed big_file_env ''home/workspaceStorage'' [''w1'']))"
    using C [THEN conjunct1] by (simp add: root_of_big_file rd)
  have C2: "from_small_file big_file_env big_indexed (JObj demo_summary_props)"
    using C [THEN conjunct2, THEN conjunct1] by simp
  show ?thesis
    by (intro conjI discover_big_file A [THEN conjunct1] A2
        A [THEN conjunct2, THEN conjunct2] st large B completed_big_scan C1 C2 all
        aborted_scan D [THEN conjunct1] D [THEN conjunct2])
qed

section \<open>Properties of deep search\<close>

lemma count_terms_fold:
  "foldl (\<lambda>(wordCounts, totalMatches) t.
            (map_set wordCounts t (term_count content t), totalMatches + term_count content t))
         (wc0, n0) ts = (wc, n) \<Longrightarrow>
     n = n0 + sum_list (map (term_count content) ts)
     \<and> (\<forall>t. map_of wc t = (if t \<in> set ts then Some (term_count content t) else map_of wc0 t))"
proof (induction ts arbitrary: wc0 n0)
  case Nil
  then show ?case by simp
next
  case (Cons a ts)
  from Cons.prems have "foldl (\<lambda>(wordCounts, totalMatches) t.
            (map_set wordCounts t (term_count content t), totalMatches + term_count content t))
         (map_set wc0 a (term_count content a), n0 + term_count content a) ts = (wc, n)"
    by simp
  from Cons.IH [OF this] show ?case
    by (auto simp: map_set_def update_conv')
qed


lemma sort_desc_set: "set (sort_desc f xs) = set xs"
  by (simp add: sort_desc_def)


lemma search_entry_Some:
  assumes "readFile env (snd e) = Inr content"
  shows "search_entry env s ts mode e = Some r \<longleftrightarrow>
           mode_matches ts mode (count_terms ts mode content)
           \<and> (\<exists>c. map_of (cachedChats s) (fst e) = Some c \<and> truthy c
                \<and> r = \<lparr>r_chat = c, r_wordCounts = fst (count_terms ts mode content),
                        r_totalMatches = snd (count_terms ts mode content), r_filePath = snd e\<rparr>)"
  using assms by (auto simp: search_entry_def Let_def split: option.splits)

subsection \<open>The matches of the regular expression and the occurrences of a phrase\<close>

text \<open>
  \<open>toLowerCase\<close> adds 32 to the code of an upper-case letter and leaves the other
  code units alone, so two code units have the same lower-case form exactly when they are
  the same letter.  The left-to-right scan finds a match exactly when the pattern occurs
  somewhere, so the count of a term is positive exactly when the term occurs in the text,
  case ignored.
\<close>

lemma lower_char_code:
  "of_char (lower_char c) = (if upper_code (of_char c) then of_char c + 32 else (of_char c :: nat))"
  apply (cases c)
  subgoal for b0 b1 b2 b3 b4 b5 b6 b7
    apply (cases b0; cases b1; cases b2; cases b3; cases b4; cases b5; cases b6; cases b7)
    apply (simp_all add: lower_char_def upper_letters_def lower_letters_def latin1_upper_def latin1_lower_def upper_code_def)
    done
  done


lemma same_letter_lower: "same_letter a b \<longleftrightarrow> lower_char a = lower_char b"
proof -
  have "lower_char a = lower_char b \<longleftrightarrow>
          (of_char (lower_char a) :: nat) = of_char (lower_char b)"
    by simp
  also have "\<dots> \<longleftrightarrow> same_letter a b"
    unfolding lower_char_code same_letter_def
    using of_char_eq_iff [of a b, where ?'a = nat]
    by (auto simp: upper_code_def simp del: of_char_eq_iff)
  finally show ?thesis by simp
qed

lemma map_eq_rel: "map f xs = map f ys \<longleftrightarrow> list_all2 (\<lambda>x y. f x = f y) xs ys"
  by (induction xs arbitrary: ys) (auto simp: list_all2_Cons1)



lemma occurs_at_lower:
  "occurs_at t content i \<longleftrightarrow>
     i + length t \<le> length content
     \<and> take (length t) (drop i (toLowerCase content)) = toLowerCase t"
proof -
  have "same_letter = (\<lambda>x y. lower_char x = lower_char y)"
    by (intro ext) (rule same_letter_lower)
  then have "list_all2 same_letter xs ys \<longleftrightarrow> map lower_char xs = map lower_char ys" for xs ys
    by (simp add: map_eq_rel)
  then show ?thesis
    by (simp add: occurs_at_def toLowerCase_def take_map drop_map)
qed






subsection \<open>What the counts are\<close>

text \<open>
  The count that the program reports for a term is the largest number of places of the text
  at which the term occurs, case ignored, without overlap: the scan finds that many, and no
  choice of such places has more.  The total of a result is the count of the phrase in mode
  \<open>exact\<close>, and the sum of the counts of the terms otherwise.
\<close>

lemma sorted_wrt_shift_down:
  "sorted_wrt (\<lambda>i j. i + n \<le> j) (ps :: nat list) \<Longrightarrow> \<forall>i\<in>set ps. k \<le> i \<Longrightarrow>
     sorted_wrt (\<lambda>i j. i + n \<le> j) (map (\<lambda>i. i - k) ps)"
  unfolding sorted_wrt_map by (erule sorted_wrt_mono_rel [rotated]) auto

lemma sorted_wrt_shift_up:
  "sorted_wrt (\<lambda>i j. i + n \<le> j) (ps :: nat list) \<Longrightarrow>
     sorted_wrt (\<lambda>i j. i + n \<le> j) (map (\<lambda>i. i + k) ps)"
  unfolding sorted_wrt_map by (erule sorted_wrt_mono_rel [rotated]) auto

lemma scan_matches_upper:
  "p \<noteq> [] \<Longrightarrow>
   \<forall>i\<in>set ps. i + length p \<le> length s \<and> take (length p) (drop i s) = p \<Longrightarrow>
   sorted_wrt (\<lambda>i j. i + length p \<le> j) ps \<Longrightarrow>
     length ps \<le> scan_matches p s"
proof (induction p s arbitrary: ps rule: scan_matches.induct)
  case (1 p)
  then have "ps = []" by (cases ps) auto
  then show ?case by simp
next
  case (2 p c cs)
  let ?n = "length p"
  from "2.prems"(1) have n: "1 \<le> ?n" by (cases p) auto
  show ?case
  proof (cases "take ?n (c # cs) = p")
    case True
    show ?thesis
    proof (cases ps)
      case Nil
      then show ?thesis by simp
    next
      case (Cons i0 rest)
      from "2.prems"(3) Cons have far: "\<forall>j\<in>set rest. ?n \<le> j" and srt: "sorted_wrt (\<lambda>i j. i + ?n \<le> j) rest"
        by auto
      let ?rest = "map (\<lambda>j. j - ?n) rest"
      have d: "drop ?n (c # cs) = drop (?n - 1) cs" using n by (cases ?n) auto
      have occ: "\<forall>i\<in>set ?rest. i + ?n \<le> length (drop (?n - 1) cs)
                   \<and> take ?n (drop i (drop (?n - 1) cs)) = p"
      proof
        fix i assume "i \<in> set ?rest"
        then obtain j where j: "j \<in> set rest" "i = j - ?n" by auto
        with far have jn: "?n \<le> j" by simp
        from j "2.prems"(2) Cons have o: "j + ?n \<le> length (c # cs)" "take ?n (drop j (c # cs)) = p"
          by auto
        have "drop i (drop ?n (c # cs)) = drop j (c # cs)"
          using j jn by (simp del: drop_Suc_Cons)
        with o j jn show "i + ?n \<le> length (drop (?n - 1) cs)
                   \<and> take ?n (drop i (drop (?n - 1) cs)) = p"
          unfolding d [symmetric] by (simp del: drop_Suc_Cons)
      qed
      have "length ?rest \<le> scan_matches p (drop (?n - 1) cs)"
        using "2.IH"(1) [OF _ "2.prems"(1) occ sorted_wrt_shift_down [OF srt far]] True "2.prems"(1)
        by simp
      with True "2.prems"(1) Cons show ?thesis by simp
    qed
  next
    case False
    have pos: "\<forall>i\<in>set ps. 1 \<le> i"
    proof
      fix i assume "i \<in> set ps"
      with "2.prems"(2) have "take ?n (drop i (c # cs)) = p" by simp
      with False show "1 \<le> i" by (cases i) auto
    qed
    let ?ps = "map (\<lambda>i. i - 1) ps"
    have occ: "\<forall>i\<in>set ?ps. i + ?n \<le> length cs \<and> take ?n (drop i cs) = p"
    proof
      fix i assume "i \<in> set ?ps"
      then obtain j where j: "j \<in> set ps" "i = j - 1" by auto
      with pos obtain k where k: "j = Suc k" by (cases j) auto
      from j "2.prems"(2) have "j + ?n \<le> length (c # cs)" "take ?n (drop j (c # cs)) = p" by auto
      with j k show "i + ?n \<le> length cs \<and> take ?n (drop i cs) = p" by simp
    qed
    have "length ?ps \<le> scan_matches p cs"
      using "2.IH"(2) [OF _ "2.prems"(1) occ sorted_wrt_shift_down [OF "2.prems"(3) pos]] False
      by simp
    with False show ?thesis by simp
  qed
qed

lemma scan_matches_places:
  "p \<noteq> [] \<Longrightarrow>
   \<exists>ps. (\<forall>i\<in>set ps. i + length p \<le> length s \<and> take (length p) (drop i s) = p)
       \<and> sorted_wrt (\<lambda>i j. i + length p \<le> j) ps \<and> length ps = scan_matches p s"
proof (induction p s rule: scan_matches.induct)
  case (1 p)
  show ?case by (rule exI [of _ "[]"]) simp
next
  case (2 p c cs)
  let ?n = "length p"
  from "2.prems" have n: "1 \<le> ?n" by (cases p) auto
  show ?case
  proof (cases "take ?n (c # cs) = p")
    case True
    from arg_cong [OF True, of length] have len: "?n \<le> length (c # cs)" by simp
    have d: "drop ?n (c # cs) = drop (?n - 1) cs" using n by (cases ?n) auto
    from "2.IH"(1) [OF _ "2.prems"] True "2.prems"
    obtain ps where ps: "\<forall>i\<in>set ps. i + ?n \<le> length (drop (?n - 1) cs)
          \<and> take ?n (drop i (drop (?n - 1) cs)) = p"
      "sorted_wrt (\<lambda>i j. i + ?n \<le> j) ps" "length ps = scan_matches p (drop (?n - 1) cs)"
      by auto
    let ?ps = "0 # map (\<lambda>i. i + ?n) ps"
    have a: "\<forall>i\<in>set ?ps. i + ?n \<le> length (c # cs) \<and> take ?n (drop i (c # cs)) = p"
    proof
      fix i assume "i \<in> set ?ps"
      then consider "i = 0" | j where "j \<in> set ps" "i = j + ?n" by auto
      then show "i + ?n \<le> length (c # cs) \<and> take ?n (drop i (c # cs)) = p"
      proof cases
        case 1
        with True len show ?thesis by simp
      next
        case 2
        with ps(1) have o: "j + ?n \<le> length (drop ?n (c # cs))"
          "take ?n (drop j (drop ?n (c # cs))) = p"
          unfolding d by auto
        have "drop j (drop ?n (c # cs)) = drop i (c # cs)"
          using 2 by (simp del: drop_Suc_Cons)
        with o 2 len show ?thesis by (simp del: drop_Suc_Cons)
      qed
    qed
    have b: "sorted_wrt (\<lambda>i j. i + ?n \<le> j) ?ps"
      using sorted_wrt_shift_up [OF ps(2), of ?n] by auto
    have "length ?ps = scan_matches p (c # cs)" using ps(3) True "2.prems" by simp
    with a b show ?thesis by blast
  next
    case False
    from "2.IH"(2) [OF _ "2.prems"] False
    obtain ps where ps: "\<forall>i\<in>set ps. i + ?n \<le> length cs \<and> take ?n (drop i cs) = p"
      "sorted_wrt (\<lambda>i j. i + ?n \<le> j) ps" "length ps = scan_matches p cs"
      by auto
    let ?ps = "map Suc ps"
    have a: "\<forall>i\<in>set ?ps. i + ?n \<le> length (c # cs) \<and> take ?n (drop i (c # cs)) = p"
      using ps(1) by auto
    have b: "sorted_wrt (\<lambda>i j. i + ?n \<le> j) ?ps"
      using ps(2) by (simp add: sorted_wrt_map)
    have "length ?ps = scan_matches p (c # cs)" using ps(3) False by simp
    with a b show ?thesis by blast
  qed
qed


lemma places_within:
  "sorted_wrt (\<lambda>i j. i + 1 \<le> j) (ps :: nat list) \<Longrightarrow> \<forall>i\<in>set ps. i \<le> n \<Longrightarrow> length ps \<le> Suc n"
proof -
  assume s: "sorted_wrt (\<lambda>i j. i + 1 \<le> j) ps" and b: "\<forall>i\<in>set ps. i \<le> n"
  from s have "sorted_wrt (<) ps" by (rule sorted_wrt_mono_rel [rotated]) auto
  then have "distinct ps" by (simp add: strict_sorted_iff)
  then have "length ps = card (set ps)" by (simp add: distinct_card)
  also from b have "set ps \<subseteq> {0..n}" by auto
  then have "card (set ps) \<le> card {0..n}" by (intro card_mono) auto
  finally show ?thesis by simp
qed

lemma count_matches_maximal:
  "(\<exists>ps. disjoint_places t content ps \<and> length ps = count_matches (toLowerCase t) content)
   \<and> (\<forall>ps. disjoint_places t content ps \<longrightarrow> length ps \<le> count_matches (toLowerCase t) content)"
proof (cases "t = []")
  case True
  have occ: "occurs_at [] content i \<longleftrightarrow> i \<le> length content" for i
    by (simp add: occurs_at_def)
  have "disjoint_places [] content [0..<Suc (length content)]"
    unfolding disjoint_places_def list_all_iff occ
    by (auto simp del: upt_Suc intro: sorted_wrt_mono_rel [OF _ sorted_wrt_upt])
  moreover have "length ps \<le> Suc (length content)" if "disjoint_places [] content ps" for ps
    using that places_within [of ps "length content"]
    by (simp add: disjoint_places_def list_all_iff occ)
  ultimately show ?thesis
    using True by (auto simp: count_matches_def toLowerCase_def simp del: upt_Suc intro!: exI [of _ "[0..<Suc (length content)]"])
next
  case False
  let ?p = "toLowerCase t" and ?s = "toLowerCase content"
  from False have p: "?p \<noteq> []" and n: "max (Suc 0) (length t) = length t"
    by (cases t; simp add: toLowerCase_def)+
  have len: "length ?p = length t" "length ?s = length content" by (simp_all add: toLowerCase_def)
  have dp: "disjoint_places t content ps \<longleftrightarrow>
        (\<forall>i\<in>set ps. i + length ?p \<le> length ?s \<and> take (length ?p) (drop i ?s) = ?p)
        \<and> sorted_wrt (\<lambda>i j. i + length ?p \<le> j) ps" for ps
    by (simp add: disjoint_places_def list_all_iff occurs_at_lower n len)
  from p have c: "count_matches ?p content = scan_matches ?p ?s" by (simp add: count_matches_def)
  from scan_matches_places [OF p, of ?s] scan_matches_upper [OF p, of _ ?s]
  show ?thesis unfolding dp c by blast
qed

lemma result_totals:
  assumes "r \<in> set (deepSearch env s ts mode)" and "readFile env (r_filePath r) = Inr content"
  shows "r_totalMatches r =
           (case mode of
              Exact \<Rightarrow> term_count content (join_with '' '' ts)
            | _ \<Rightarrow> sum_list (map (term_count content) ts))"
proof -
  from assms(1) obtain e where se: "search_entry env s ts mode e = Some r"
    by (auto simp: deepSearch_def sort_desc_set set_map_filter)
  then have p: "r_filePath r = snd e"
    by (auto simp: search_entry_def Let_def split: sum.splits option.splits if_splits)
  with assms(2) se have t: "r_totalMatches r = snd (count_terms ts mode content)"
    by (auto simp: search_entry_Some)
  show ?thesis
  proof (cases "mode = Exact")
    case True
    with t show ?thesis by (simp add: count_terms_def Let_def term_count_def)
  next
    case False
    obtain wc n where f: "count_terms ts mode content = (wc, n)" by (cases "count_terms ts mode content")
    with False have "foldl (\<lambda>(wordCounts, totalMatches) t.
            (map_set wordCounts t (term_count content t), totalMatches + term_count content t))
         ([], 0) ts = (wc, n)" by (simp add: count_terms_def)
    from count_terms_fold [OF this] t f False show ?thesis by (cases mode) simp_all
  qed
qed



lemma accented_term_count: "term_count [CHR ''c'', CHR ''a'', CHR ''f'', CHR 0xE9] [CHR ''C'', CHR ''A'', CHR ''F'', CHR 0xC9] = 1"
  by code_simp


lemma overlapping_term_count: "term_count ''aaaaa'' ''aa'' = 2 \<and> occurrences ''aa'' ''aaaaa'' = 4"
  by code_simp


end
